theory Spec2Isabelle
  imports Complex_Main "HOL-Library.Word"
begin

section \<open>Bond price calculator: yield curve and pricing engine\<close>

text \<open>
  A shallow embedding of \<^verbatim>\<open>bond_price_calc.cpp\<close>.

  Numbers. A C++ \<^verbatim>\<open>double\<close> is modelled by a \<^typ>\<open>real\<close>: rounding, overflow to
  infinity and NaN are outside the model. Where IEEE arithmetic would leave the finite
  numbers from finite operands (a division by zero, a zero base raised to a negative
  power, the root of a negative number) the model returns an error instead of a number.
  A stored C++ \<^verbatim>\<open>int\<close> is a 32-bit word read as two's complement (\<open>sint\<close>); an
  \<^verbatim>\<open>int\<close> operation whose exact result leaves the 32-bit range is undefined
  behaviour in C++ and an error here. Reading \<^verbatim>\<open>front()\<close> or \<^verbatim>\<open>back()\<close> of an
  empty vector, or indexing a vector out of range, is undefined behaviour in C++ and an
  error here.

  Exceptions. \<^verbatim>\<open>throw std::invalid_argument(msg)\<close> is the value
  \<open>Inl (Invalid_argument msg)\<close>; the \<^verbatim>\<open>std::length_error\<close> of the standard library is
  \<open>Inl Length_error\<close>.
\<close>

subsection \<open>Errors and checked primitive operations\<close>

datatype error =
    Invalid_argument string
  | Empty_vector_read
  | Index_out_of_range
  | Division_by_zero
  | Signed_overflow
  | Sqrt_of_negative
  | Length_error

definition bind_e :: "error + 'a \<Rightarrow> ('a \<Rightarrow> error + 'b) \<Rightarrow> error + 'b" where
  "bind_e m f = (case m of Inl err \<Rightarrow> Inl err | Inr x \<Rightarrow> f x)"

lemma bind_e_cong [fundef_cong]:
  "m = m' \<Longrightarrow> (\<And>x. m' = Inr x \<Longrightarrow> f x = f' x) \<Longrightarrow> bind_e m f = bind_e m' f'"
  by (simp add: bind_e_def split: sum.splits)

definition INT_MAX :: int where
  "INT_MAX = 2147483647"

definition INT_MIN :: int where
  "INT_MIN = - 2147483648"

text \<open>Arithmetic of \<^verbatim>\<open>int\<close>: the exact result when it is representable.\<close>

definition checked_int :: "int \<Rightarrow> error + int" where
  "checked_int n = (if INT_MIN \<le> n \<and> n \<le> INT_MAX then Inr n else Inl Signed_overflow)"

definition int_mul :: "int \<Rightarrow> int \<Rightarrow> error + int" where
  "int_mul a b = checked_int (a * b)"

definition int_sub :: "int \<Rightarrow> int \<Rightarrow> error + int" where
  "int_sub a b = checked_int (a - b)"

definition int_incr :: "int \<Rightarrow> error + int" where
  "int_incr i = checked_int (i + 1)"

text \<open>Division of doubles.\<close>

definition fdiv :: "real \<Rightarrow> real \<Rightarrow> error + real" where
  "fdiv x y = (if y = 0 then Inl Division_by_zero else Inr (x / y))"

text \<open>
  \<^verbatim>\<open>std::pow(x, n)\<close> with an \<^verbatim>\<open>int\<close> exponent (converted to double, it is still
  an integer): repeated multiplication, the reciprocal for a negative exponent, a pole
  error at \<open>x = 0\<close> with a negative exponent.
\<close>

definition pow :: "real \<Rightarrow> int \<Rightarrow> error + real" where
  "pow x n =
     (if 0 \<le> n then Inr (x ^ nat n)
      else if x = 0 then Inl Division_by_zero
      else Inr (1 / x ^ nat (- n)))"

definition fsqrt :: "real \<Rightarrow> error + real" where
  "fsqrt x = (if x < 0 then Inl Sqrt_of_negative else Inr (sqrt x))"

text \<open>\<^verbatim>\<open>v.front()\<close>, \<^verbatim>\<open>v.back()\<close> and \<^verbatim>\<open>v[i]\<close> of a \<^verbatim>\<open>std::vector\<close>.\<close>

definition vec_front :: "'a list \<Rightarrow> error + 'a" where
  "vec_front v = (case v of [] \<Rightarrow> Inl Empty_vector_read | x # _ \<Rightarrow> Inr x)"

definition vec_back :: "'a list \<Rightarrow> error + 'a" where
  "vec_back v = (if v = [] then Inl Empty_vector_read else Inr (last v))"

definition vec_at :: "'a list \<Rightarrow> int \<Rightarrow> error + 'a" where
  "vec_at v i = (if 0 \<le> i \<and> i < int (length v) then Inr (v ! nat i) else Inl Index_out_of_range)"

text \<open>
  \<^verbatim>\<open>std::lower_bound(first, last, t)\<close> as the standard library implements it: a binary
  search over the range of \<open>len\<close> elements starting at position \<open>first\<close>, halving the
  range at each step. The result is a position, \<open>length v\<close> standing for \<^verbatim>\<open>end()\<close>.
\<close>

function lower_bound_from :: "real list \<Rightarrow> real \<Rightarrow> nat \<Rightarrow> nat \<Rightarrow> nat" where
  "lower_bound_from v t first len =
     (if 0 < len then
        (let half = len div 2; middle = first + half in
         if v ! middle < t
         then lower_bound_from v t (middle + 1) (len - half - 1)
         else lower_bound_from v t first half)
      else first)"
  by pat_completeness auto
termination
  by (relation "measure (\<lambda>(v, t, first, len). len)") auto

declare lower_bound_from.simps [simp del]

definition lower_bound :: "real list \<Rightarrow> real \<Rightarrow> nat" where
  "lower_bound v t = lower_bound_from v t 0 (length v)"

subsection \<open>YieldCurve\<close>

record yield_curve =
  maturities :: "real list"
  rates :: "real list"

text \<open>The constructor copies both vectors, then throws when their sizes differ.\<close>

definition YieldCurve :: "real list \<Rightarrow> real list \<Rightarrow> error + yield_curve" where
  "YieldCurve ms rs =
     (if length ms \<noteq> length rs
      then Inl (Invalid_argument ''Maturities and rates must have the same size'')
      else Inr \<lparr>maturities = ms, rates = rs\<rparr>)"

text \<open>
  \<^verbatim>\<open>int index = std::distance(maturities.begin(), it)\<close> narrows a \<^verbatim>\<open>ptrdiff_t\<close> to
  \<^verbatim>\<open>int\<close>: the value modulo \<open>2^32\<close>, read as two's complement. An index that is
  negative after the narrowing (or after \<open>index - 1\<close>) lies outside the vector.
\<close>

definition to_int :: "nat \<Rightarrow> int" where
  "to_int n = signed_take_bit 31 (int n)"

definition interpolate :: "yield_curve \<Rightarrow> real \<Rightarrow> error + real" where
  "interpolate c t =
     (let it = lower_bound (maturities c) t in
      if it = 0 then vec_front (rates c)
      else if it = length (maturities c) then vec_back (rates c)
      else
        (let index = to_int it in
         bind_e (vec_at (maturities c) (index - 1)) (\<lambda>t0.
         bind_e (vec_at (maturities c) index) (\<lambda>t1.
         bind_e (vec_at (rates c) (index - 1)) (\<lambda>r0.
         bind_e (vec_at (rates c) index) (\<lambda>r1.
         bind_e (fdiv ((r1 - r0) * (t - t0)) (t1 - t0)) (\<lambda>q.
         Inr (r0 + q))))))))"

subsection \<open>BondPriceCalculator\<close>

text \<open>
  The members of the class. \<open>gen\<close> stands for the pair of \<^verbatim>\<open>std::mt19937 gen\<close> and
  \<^verbatim>\<open>std::normal_distribution<> dist\<close>: it is the sequence of the numbers that the
  successive calls \<^verbatim>\<open>dist(gen)\<close> are going to return, so that a call reads its head
  and leaves the rest.
\<close>

record engine =
  face_value :: real
  coupon_rate :: real
  years_to_maturity :: "32 word"
  coupons_per_year :: "32 word"
  yield_curve :: yield_curve
  num_simulations :: "32 word"
  is_zero_coupon :: bool
  gen :: "nat \<Rightarrow> real"

definition dist_gen :: "engine \<Rightarrow> real \<times> engine" where
  "dist_gen e = (gen e 0, e\<lparr>gen := (\<lambda>k. gen e (Suc k))\<rparr>)"

definition validateInputs :: "engine \<Rightarrow> error + unit" where
  "validateInputs e =
     (if face_value e \<le> 0 then Inl (Invalid_argument ''Face value must be positive'')
      else if coupon_rate e < 0 then Inl (Invalid_argument ''Coupon rate cannot be negative'')
      else if sint (years_to_maturity e) \<le> 0
        then Inl (Invalid_argument ''Years to maturity must be positive'')
      else if sint (coupons_per_year e) \<le> 0
        then Inl (Invalid_argument ''Coupons per year must be positive'')
      else if sint (num_simulations e) \<le> 0
        then Inl (Invalid_argument ''Number of simulations must be positive'')
      else Inr ())"

text \<open>
  The constructor: the member initialisers, then \<^verbatim>\<open>validateInputs()\<close>, then the
  assignment of \<^verbatim>\<open>is_zero_coupon\<close>. Before that assignment the flag is indeterminate
  (\<open>False\<close> here; \<open>validateInputs\<close> does not read it). The last argument is the sequence
  of samples that the generator seeded from \<^verbatim>\<open>std::random_device\<close> will produce.
\<close>

definition BondPriceCalculator ::
  "real \<Rightarrow> real \<Rightarrow> 32 word \<Rightarrow> 32 word \<Rightarrow> yield_curve \<Rightarrow> 32 word \<Rightarrow> (nat \<Rightarrow> real)
     \<Rightarrow> error + engine" where
  "BondPriceCalculator fv cr ytm cpy yc sims samples =
     (let e = \<lparr>face_value = fv, coupon_rate = cr, years_to_maturity = ytm,
                coupons_per_year = cpy, yield_curve = yc, num_simulations = sims,
                is_zero_coupon = False, gen = samples\<rparr>
      in bind_e (validateInputs e) (\<lambda>_.
         Inr (e\<lparr>is_zero_coupon := (coupon_rate e = 0 \<and> sint (coupons_per_year e) = 1)\<rparr>)))"

text \<open>
  The coupon loop of \<^verbatim>\<open>calculatePrice\<close>,
  \<^verbatim>\<open>for (int i = 1; i <= years_to_maturity * coupons_per_year; ++i)\<close>, from the
  state \<open>(i, price)\<close> onwards: the test evaluates the product at every iteration.
\<close>

function price_loop :: "engine \<Rightarrow> yield_curve \<Rightarrow> real \<Rightarrow> int \<Rightarrow> real \<Rightarrow> error + real" where
  "price_loop e curve coupon_payment i price =
     bind_e (int_mul (sint (years_to_maturity e)) (sint (coupons_per_year e))) (\<lambda>n.
       if i \<le> n then
         bind_e (fdiv (of_int i) (of_int (sint (coupons_per_year e)))) (\<lambda>t.
         bind_e (interpolate curve t) (\<lambda>ytm.
         bind_e (fdiv ytm (of_int (sint (coupons_per_year e)))) (\<lambda>q.
         bind_e (pow (1 + q) i) (\<lambda>d.
         bind_e (fdiv coupon_payment d) (\<lambda>c.
         bind_e (int_incr i) (\<lambda>i'.
         price_loop e curve coupon_payment i' (price + c)))))))
       else Inr price)"
  by pat_completeness auto
termination
  by (relation "measure (\<lambda>(e, curve, coupon_payment, i, price).
        nat (sint (years_to_maturity e) * sint (coupons_per_year e) + 1 - i))")
     (auto simp: int_mul_def int_incr_def checked_int_def split: if_splits)

declare price_loop.simps [simp del]

definition calculatePrice :: "engine \<Rightarrow> yield_curve \<Rightarrow> error + real" where
  "calculatePrice e curve =
     (if is_zero_coupon e then
        bind_e (interpolate curve (of_int (sint (years_to_maturity e)))) (\<lambda>ytm.
        bind_e (pow (1 + ytm) (sint (years_to_maturity e))) (\<lambda>d.
        fdiv (face_value e) d))
      else
        bind_e (fdiv (face_value e * coupon_rate e) (of_int (sint (coupons_per_year e))))
          (\<lambda>coupon_payment.
        bind_e (price_loop e curve coupon_payment 1 0) (\<lambda>price.
        bind_e (interpolate curve (of_int (sint (years_to_maturity e)))) (\<lambda>final_ytm.
        bind_e (fdiv final_ytm (of_int (sint (coupons_per_year e)))) (\<lambda>q.
        bind_e (int_mul (sint (years_to_maturity e)) (sint (coupons_per_year e))) (\<lambda>n.
        bind_e (pow (1 + q) n) (\<lambda>d.
        bind_e (fdiv (face_value e) d) (\<lambda>f.
        Inr (price + f)))))))))"

text \<open>\<^verbatim>\<open>calculateStaticPrice\<close>: the same text, on the member \<^verbatim>\<open>yield_curve\<close>.\<close>

function static_loop :: "engine \<Rightarrow> real \<Rightarrow> int \<Rightarrow> real \<Rightarrow> error + real" where
  "static_loop e coupon_payment i price =
     bind_e (int_mul (sint (years_to_maturity e)) (sint (coupons_per_year e))) (\<lambda>n.
       if i \<le> n then
         bind_e (fdiv (of_int i) (of_int (sint (coupons_per_year e)))) (\<lambda>t.
         bind_e (interpolate (yield_curve e) t) (\<lambda>ytm.
         bind_e (fdiv ytm (of_int (sint (coupons_per_year e)))) (\<lambda>q.
         bind_e (pow (1 + q) i) (\<lambda>d.
         bind_e (fdiv coupon_payment d) (\<lambda>c.
         bind_e (int_incr i) (\<lambda>i'.
         static_loop e coupon_payment i' (price + c)))))))
       else Inr price)"
  by pat_completeness auto
termination
  by (relation "measure (\<lambda>(e, coupon_payment, i, price).
        nat (sint (years_to_maturity e) * sint (coupons_per_year e) + 1 - i))")
     (auto simp: int_mul_def int_incr_def checked_int_def split: if_splits)

declare static_loop.simps [simp del]

definition calculateStaticPrice :: "engine \<Rightarrow> error + real" where
  "calculateStaticPrice e =
     (if is_zero_coupon e then
        bind_e (interpolate (yield_curve e) (of_int (sint (years_to_maturity e)))) (\<lambda>ytm.
        bind_e (pow (1 + ytm) (sint (years_to_maturity e))) (\<lambda>d.
        fdiv (face_value e) d))
      else
        bind_e (fdiv (face_value e * coupon_rate e) (of_int (sint (coupons_per_year e))))
          (\<lambda>coupon_payment.
        bind_e (static_loop e coupon_payment 1 0) (\<lambda>price.
        bind_e (interpolate (yield_curve e) (of_int (sint (years_to_maturity e)))) (\<lambda>final_ytm.
        bind_e (fdiv final_ytm (of_int (sint (coupons_per_year e)))) (\<lambda>q.
        bind_e (int_mul (sint (years_to_maturity e)) (sint (coupons_per_year e))) (\<lambda>n.
        bind_e (pow (1 + q) n) (\<lambda>d.
        bind_e (fdiv (face_value e) d) (\<lambda>f.
        Inr (price + f)))))))))"

text \<open>
  \<^verbatim>\<open>shiftYieldCurve\<close>: the loop \<^verbatim>\<open>for (int i = 1; i <= years_to_maturity; ++i)\<close> from
  the state \<open>(i, maturities, rates)\<close> onwards, the generator advancing inside the engine;
  then the construction of the new curve.
\<close>

function shift_loop ::
  "engine \<Rightarrow> int \<Rightarrow> real list \<Rightarrow> real list \<Rightarrow> error + (real list \<times> real list \<times> engine)" where
  "shift_loop e i ms rs =
     (if i \<le> sint (years_to_maturity e) then
        bind_e (interpolate (yield_curve e) (of_int i)) (\<lambda>base_rate.
          let (x, e') = dist_gen e;
              shifted_rate = base_rate + x
          in bind_e (int_incr i) (\<lambda>i'.
             shift_loop e' i' (ms @ [of_int i]) (rs @ [max 0 shifted_rate])))
      else Inr (ms, rs, e))"
  by pat_completeness auto
termination
  by (relation "measure (\<lambda>(e, i, ms, rs). nat (sint (years_to_maturity e) + 1 - i))")
     (auto simp: dist_gen_def int_incr_def checked_int_def split: if_splits)

declare shift_loop.simps [simp del]

definition shiftYieldCurve :: "engine \<Rightarrow> error + (yield_curve \<times> engine)" where
  "shiftYieldCurve e =
     bind_e (shift_loop e 1 [] []) (\<lambda>(ms, rs, e').
     bind_e (YieldCurve ms rs) (\<lambda>c.
     Inr (c, e')))"

text \<open>The engine that \<^verbatim>\<open>shiftYieldCurve\<close> leaves differs from the old one in \<open>gen\<close> only.\<close>

lemma shift_loop_engine:
  "shift_loop e i ms rs = Inr (ms', rs', e') \<Longrightarrow> e' = e\<lparr>gen := gen e'\<rparr>"
proof (induction e i ms rs rule: shift_loop.induct)
  case (1 e i ms rs)
  show ?case
  proof (cases "i \<le> sint (years_to_maturity e)")
    case False
    with "1.prems" show ?thesis
      by (simp add: shift_loop.simps [of e i])
  next
    case True
    obtain x e2 where d: "dist_gen e = (x, e2)"
      by fastforce
    from "1.prems" True d obtain base_rate i' where
      b: "interpolate (yield_curve e) (of_int i) = Inr base_rate" and
      i': "int_incr i = Inr i'" and
      r: "shift_loop e2 i' (ms @ [of_int i]) (rs @ [max 0 (base_rate + x)]) = Inr (ms', rs', e')"
      by (auto simp: shift_loop.simps [of e i] bind_e_def split: sum.splits)
    have "e' = e2\<lparr>gen := gen e'\<rparr>"
      by (rule "1.IH" [OF True b refl d [symmetric] refl i' r])
    with d show ?thesis
      by (auto simp: dist_gen_def)
  qed
qed

lemma shiftYieldCurve_engine:
  "shiftYieldCurve e = Inr (c, e') \<Longrightarrow> e' = e\<lparr>gen := gen e'\<rparr>"
  by (auto simp: shiftYieldCurve_def bind_e_def split: sum.splits dest: shift_loop_engine)

text \<open>
  \<^verbatim>\<open>calculateMonteCarlo\<close>. \<^verbatim>\<open>prices.reserve(num_simulations)\<close> converts its argument to
  \<^verbatim>\<open>size_t\<close> and throws \<^verbatim>\<open>std::length_error\<close> for a negative one. The loop
  \<^verbatim>\<open>for (int i = 0; i < num_simulations; ++i)\<close> runs from the state \<open>(i, prices)\<close>.
  \<^verbatim>\<open>std::accumulate\<close> is a left fold; \<^verbatim>\<open>std::pow(price - mean, 2)\<close> is the square.
\<close>

definition reserve :: "int \<Rightarrow> error + unit" where
  "reserve n = (if n < 0 then Inl Length_error else Inr ())"

function mc_loop :: "engine \<Rightarrow> int \<Rightarrow> real list \<Rightarrow> error + (real list \<times> engine)" where
  "mc_loop e i prices =
     (if i < sint (num_simulations e) then
        bind_e (shiftYieldCurve e) (\<lambda>(shifted_curve, e').
        bind_e (calculatePrice e' shifted_curve) (\<lambda>price.
        bind_e (int_incr i) (\<lambda>i'.
        mc_loop e' i' (prices @ [price]))))
      else Inr (prices, e))"
  by pat_completeness auto
termination
proof (relation "measure (\<lambda>(e, i, prices). nat (sint (num_simulations e) - i))", goal_cases)
  case 1
  show ?case by simp
next
  case (2 e i prices r shifted_curve e' price i')
  from 2 have "shiftYieldCurve e = Inr (shifted_curve, e')"
    by simp
  then have "e' = e\<lparr>gen := gen e'\<rparr>"
    by (rule shiftYieldCurve_engine)
  then have "num_simulations e' = num_simulations (e\<lparr>gen := gen e'\<rparr>)"
    by simp
  then have "num_simulations e' = num_simulations e"
    by simp
  with 2 show ?case
    by (auto simp: int_incr_def checked_int_def split: if_splits)
qed

declare mc_loop.simps [simp del]

definition calculateMonteCarlo :: "engine \<Rightarrow> error + ((real \<times> real) \<times> engine)" where
  "calculateMonteCarlo e =
     bind_e (reserve (sint (num_simulations e))) (\<lambda>_.
     bind_e (mc_loop e 0 []) (\<lambda>(prices, e').
     bind_e (fdiv (foldl (+) 0 prices) (of_int (sint (num_simulations e')))) (\<lambda>mean.
     bind_e (int_sub (sint (num_simulations e')) 1) (\<lambda>n1.
     bind_e (fdiv (foldl (\<lambda>acc price. acc + (price - mean) ^ 2) 0 prices) (of_int n1))
       (\<lambda>variance.
     bind_e (fsqrt variance) (\<lambda>std_dev.
     Inr ((mean, std_dev), e')))))))"

text \<open>
  The simulation in the words of its description: one trial perturbs the curve, then prices
  the perturbed curve; \<open>trials k\<close> runs \<open>k\<close> trials one after the other on the advancing
  engine and collects their prices in order. The loop of \<open>calculateMonteCarlo\<close> is compared
  with it below.
\<close>

definition trial :: "engine \<Rightarrow> error + (real \<times> engine)" where
  "trial e =
     bind_e (shiftYieldCurve e) (\<lambda>(shifted_curve, e').
     bind_e (calculatePrice e' shifted_curve) (\<lambda>price.
     Inr (price, e')))"

fun trials :: "nat \<Rightarrow> engine \<Rightarrow> error + (real list \<times> engine)" where
  "trials 0 e = Inr ([], e)"
| "trials (Suc k) e =
     bind_e (trial e) (\<lambda>(price, e').
     bind_e (trials k e') (\<lambda>(prices, e'').
     Inr (price # prices, e'')))"

section \<open>Properties\<close>

subsection \<open>The lower bound and the three cases of interpolation\<close>

text \<open>
  On a sorted vector the binary search returns the partition point: every element before
  it is less than \<open>t\<close>, every element from it on is at least \<open>t\<close>.
\<close>

lemma lower_bound_from_partition:
  assumes "sorted v" and "first + len \<le> length v"
    and "\<forall>j<first. v ! j < t"
    and "\<forall>j. first + len \<le> j \<and> j < length v \<longrightarrow> t \<le> v ! j"
  shows "first \<le> lower_bound_from v t first len \<and>
         lower_bound_from v t first len \<le> first + len \<and>
         (\<forall>j<lower_bound_from v t first len. v ! j < t) \<and>
         (\<forall>j. lower_bound_from v t first len \<le> j \<and> j < length v \<longrightarrow> t \<le> v ! j)"
  using assms
proof (induction v t first len rule: lower_bound_from.induct)
  case (1 v t first len)
  show ?case
  proof (cases "0 < len")
    case False
    then have "lower_bound_from v t first len = first"
      by (subst lower_bound_from.simps) simp
    with False "1.prems" show ?thesis
      by simp
  next
    case pos: True
    define half where "half = len div 2"
    define middle where "middle = first + half"
    have mid: "middle < first + len" "middle < length v"
      using pos "1.prems"(2) by (auto simp: half_def middle_def)
    show ?thesis
    proof (cases "v ! middle < t")
      case True
      have below: "\<forall>j<middle + 1. v ! j < t"
      proof (intro allI impI)
        fix j assume "j < middle + 1"
        then have "j \<le> middle" by simp
        with \<open>sorted v\<close> mid have "v ! j \<le> v ! middle"
          by (simp add: sorted_iff_nth_mono)
        with True show "v ! j < t" by simp
      qed
      have sum: "middle + 1 + (len - half - 1) = first + len"
        using pos by (auto simp: half_def middle_def)
      have eq: "lower_bound_from v t first len = lower_bound_from v t (middle + 1) (len - half - 1)"
        using pos True by (subst lower_bound_from.simps) (simp add: half_def middle_def Let_def)
      have "middle + 1 \<le> lower_bound_from v t (middle + 1) (len - half - 1) \<and>
         lower_bound_from v t (middle + 1) (len - half - 1) \<le> middle + 1 + (len - half - 1) \<and>
         (\<forall>j<lower_bound_from v t (middle + 1) (len - half - 1). v ! j < t) \<and>
         (\<forall>j. lower_bound_from v t (middle + 1) (len - half - 1) \<le> j \<and> j < length v \<longrightarrow> t \<le> v ! j)"
        using "1.IH"(1) [OF pos half_def middle_def True \<open>sorted v\<close> _ below] "1.prems"(2,4) sum
        by simp
      then show ?thesis
        unfolding eq sum by (simp add: middle_def)
    next
      case False
      have above: "\<forall>j. first + half \<le> j \<and> j < length v \<longrightarrow> t \<le> v ! j"
      proof (intro allI impI)
        fix j assume "first + half \<le> j \<and> j < length v"
        with \<open>sorted v\<close> have "v ! middle \<le> v ! j"
          by (simp add: sorted_iff_nth_mono middle_def)
        with False show "t \<le> v ! j" by simp
      qed
      have eq: "lower_bound_from v t first len = lower_bound_from v t first half"
        using pos False by (subst lower_bound_from.simps) (simp add: half_def middle_def Let_def)
      have "first \<le> lower_bound_from v t first half \<and>
         lower_bound_from v t first half \<le> first + half \<and>
         (\<forall>j<lower_bound_from v t first half. v ! j < t) \<and>
         (\<forall>j. lower_bound_from v t first half \<le> j \<and> j < length v \<longrightarrow> t \<le> v ! j)"
        using "1.IH"(2) [OF pos half_def middle_def False \<open>sorted v\<close> _ "1.prems"(3) above] mid
        by (simp add: middle_def)
      then show ?thesis
        unfolding eq using pos by (auto simp: half_def)
    qed
  qed
qed

lemma lower_bound_partition:
  assumes "sorted v"
  shows "lower_bound v t \<le> length v \<and>
         (\<forall>j<lower_bound v t. v ! j < t) \<and>
         (\<forall>j. lower_bound v t \<le> j \<and> j < length v \<longrightarrow> t \<le> v ! j)"
  using lower_bound_from_partition [of v 0 "length v" t] assms
  by (simp add: lower_bound_def)

lemma to_int_small: "n < 2 ^ 31 \<Longrightarrow> to_int n = int n"
proof -
  assume "n < 2 ^ 31"
  then have "int n < 2 ^ 31" by simp
  then show ?thesis
    by (simp add: to_int_def signed_take_bit_int_eq_self)
qed

lemma interpolate_below:
  assumes "maturities c \<noteq> []" and "sorted (maturities c)"
    and "length (rates c) = length (maturities c)"
    and "t \<le> hd (maturities c)"
  shows "lower_bound (maturities c) t = 0" and "interpolate c t = Inr (hd (rates c))"
proof -
  let ?k = "lower_bound (maturities c) t"
  have "\<forall>j<?k. maturities c ! j < t"
    using lower_bound_partition [OF assms(2)] by simp
  moreover have "\<not> maturities c ! 0 < t"
    using assms(1,4) by (simp add: hd_conv_nth)
  ultimately show k: "?k = 0"
    by (cases "?k") auto
  from assms(1,3) have "rates c \<noteq> []" by auto
  then show "interpolate c t = Inr (hd (rates c))"
    by (simp add: interpolate_def k vec_front_def split: list.splits)
qed

lemma interpolate_above:
  assumes "maturities c \<noteq> []" and "sorted (maturities c)"
    and "length (rates c) = length (maturities c)"
    and "last (maturities c) < t"
  shows "lower_bound (maturities c) t = length (maturities c)"
    and "interpolate c t = Inr (last (rates c))"
proof -
  let ?k = "lower_bound (maturities c) t"
  have le: "?k \<le> length (maturities c)"
    and above: "\<forall>j. ?k \<le> j \<and> j < length (maturities c) \<longrightarrow> t \<le> maturities c ! j"
    using lower_bound_partition [OF assms(2)] by simp_all
  have "\<not> t \<le> maturities c ! (length (maturities c) - 1)"
    using assms(1,4) by (simp add: last_conv_nth)
  with above have "\<not> ?k \<le> length (maturities c) - 1"
    using assms(1) by auto
  with le show k: "?k = length (maturities c)"
    by simp
  from assms(1,3) have "rates c \<noteq> []" by auto
  with assms(1) show "interpolate c t = Inr (last (rates c))"
    by (simp add: interpolate_def k vec_back_def)
qed

lemma interpolate_between:
  assumes "maturities c \<noteq> []" and "sorted_wrt (<) (maturities c)"
    and "length (rates c) = length (maturities c)"
    and "length (maturities c) < 2 ^ 31"
    and "hd (maturities c) < t" and "t \<le> last (maturities c)"
  defines "k \<equiv> lower_bound (maturities c) t"
  shows "0 < k" and "k < length (maturities c)"
    and "maturities c ! (k - 1) < t" and "t \<le> maturities c ! k"
    and "maturities c ! (k - 1) < maturities c ! k"
    and "interpolate c t =
           Inr (rates c ! (k - 1) +
                (rates c ! k - rates c ! (k - 1)) * (t - maturities c ! (k - 1)) /
                (maturities c ! k - maturities c ! (k - 1)))"
proof -
  have srt: "sorted (maturities c)"
    using assms(2) by (simp add: sorted_wrt_iff_nth_less sorted_iff_nth_mono_less less_imp_le)
  have le: "k \<le> length (maturities c)"
    and below: "\<forall>j<k. maturities c ! j < t"
    and above: "\<forall>j. k \<le> j \<and> j < length (maturities c) \<longrightarrow> t \<le> maturities c ! j"
    using lower_bound_partition [OF srt] by (simp_all add: k_def)
  have "\<not> t \<le> maturities c ! 0"
    using assms(1,5) by (simp add: hd_conv_nth)
  with above assms(1) show pos: "0 < k"
    by (cases k) auto
  have "\<not> maturities c ! (length (maturities c) - 1) < t"
    using assms(1,6) by (simp add: last_conv_nth)
  with below assms(1) have "k \<noteq> length (maturities c)"
    by (metis diff_less length_greater_0_conv zero_less_one)
  with le show lt: "k < length (maturities c)"
    by simp
  from below pos show t0: "maturities c ! (k - 1) < t"
    by simp
  from above lt show t1: "t \<le> maturities c ! k"
    by simp
  from t0 t1 show strict: "maturities c ! (k - 1) < maturities c ! k"
    by simp
  have idx: "to_int k = int k"
    using lt assms(4) by (simp add: to_int_small)
  have k1: "nat (int k - 1) = k - 1"
    by simp
  show "interpolate c t =
           Inr (rates c ! (k - 1) +
                (rates c ! k - rates c ! (k - 1)) * (t - maturities c ! (k - 1)) /
                (maturities c ! k - maturities c ! (k - 1)))"
    using pos lt strict assms(3)
    by (simp add: interpolate_def k_def [symmetric] idx vec_at_def bind_e_def fdiv_def k1)
qed

subsection \<open>The claims about YieldCurve\<close>

text \<open>
  C2. On a curve with at least one point whose maturities are strictly increasing (and, as
  the constructor guarantees, as many rates as maturities; fewer than \<open>2^31\<close> points, so
  that the index fits an \<^verbatim>\<open>int\<close>), \<open>interpolate c t\<close> returns the first rate when \<open>t\<close> is at
  most the first maturity, the last rate when \<open>t\<close> exceeds the last maturity, and otherwise
  the linear interpolation \<open>r0 + (r1 - r0) * (t - t0) / (t1 - t0)\<close> between the point
  \<open>(t0, r0)\<close> just before the lower-bound index \<open>k\<close> and the point \<open>(t1, r1)\<close> at \<open>k\<close>, where
  \<open>t0 < t \<le> t1\<close>. The result is a value of \<open>interpolate c t\<close>, a function of the curve and
  \<open>t\<close> alone.
\<close>

theorem interpolate_piecewise_linear:
  assumes "maturities c \<noteq> []" and "sorted_wrt (<) (maturities c)"
    and "length (rates c) = length (maturities c)"
    and "length (maturities c) < 2 ^ 31"
  shows "(t \<le> hd (maturities c) \<longrightarrow> interpolate c t = Inr (hd (rates c))) \<and>
         (last (maturities c) < t \<longrightarrow> interpolate c t = Inr (last (rates c))) \<and>
         (hd (maturities c) < t \<and> t \<le> last (maturities c) \<longrightarrow>
            (let k = lower_bound (maturities c) t;
                 t0 = maturities c ! (k - 1); t1 = maturities c ! k;
                 r0 = rates c ! (k - 1); r1 = rates c ! k
             in 0 < k \<and> k < length (maturities c) \<and> t0 < t \<and> t \<le> t1 \<and>
                interpolate c t = Inr (r0 + (r1 - r0) * (t - t0) / (t1 - t0))))"
proof -
  have srt: "sorted (maturities c)"
    using assms(2) by (simp add: sorted_wrt_iff_nth_less sorted_iff_nth_mono_less less_imp_le)
  show ?thesis
  proof (intro conjI impI)
    assume "t \<le> hd (maturities c)"
    then show "interpolate c t = Inr (hd (rates c))"
      by (rule interpolate_below(2) [OF assms(1) srt assms(3)])
  next
    assume "last (maturities c) < t"
    then show "interpolate c t = Inr (last (rates c))"
      by (rule interpolate_above(2) [OF assms(1) srt assms(3)])
  next
    assume "hd (maturities c) < t \<and> t \<le> last (maturities c)"
    then have lo: "hd (maturities c) < t" and hi: "t \<le> last (maturities c)"
      by simp_all
    show "let k = lower_bound (maturities c) t;
              t0 = maturities c ! (k - 1); t1 = maturities c ! k;
              r0 = rates c ! (k - 1); r1 = rates c ! k
          in 0 < k \<and> k < length (maturities c) \<and> t0 < t \<and> t \<le> t1 \<and>
             interpolate c t = Inr (r0 + (r1 - r0) * (t - t0) / (t1 - t0))"
      unfolding Let_def
      using interpolate_between(1-4,6) [OF assms lo hi] by blast
  qed
qed

theorem interpolate_piecewise_linear_witness:
  "maturities \<lparr>maturities = [1, 2], rates = [1 / 100, 2 / 100]\<rparr> \<noteq> [] \<and>
   sorted_wrt (<) (maturities \<lparr>maturities = [1, 2], rates = [1 / 100, 2 / 100]\<rparr>) \<and>
   length (rates \<lparr>maturities = [1, 2], rates = [1 / 100, 2 / 100]\<rparr>) =
     length (maturities \<lparr>maturities = [1, 2], rates = [1 / 100, 2 / 100]\<rparr>) \<and>
   interpolate \<lparr>maturities = [1, 2], rates = [1 / 100, 2 / 100]\<rparr> (1 / 2) = Inr (1 / 100) \<and>
   interpolate \<lparr>maturities = [1, 2], rates = [1 / 100, 2 / 100]\<rparr> 5 = Inr (2 / 100) \<and>
   interpolate \<lparr>maturities = [1, 2], rates = [1 / 100, 2 / 100]\<rparr> (3 / 2) = Inr (3 / 200)"
proof -
  let ?c = "\<lparr>maturities = [1, 2], rates = [1 / 100, 2 / 100 :: real]\<rparr>"
  have h: "maturities ?c \<noteq> []" "sorted_wrt (<) (maturities ?c)"
    "length (rates ?c) = length (maturities ?c)" "length (maturities ?c) < 2 ^ 31"
    by simp_all
  have k: "lower_bound [1, 2] (3 / 2) = 1"
    by (simp add: lower_bound_def lower_bound_from.simps Let_def)
  from interpolate_piecewise_linear [OF h, of "1 / 2"]
  have a: "interpolate ?c (1 / 2) = Inr (1 / 100)" by simp
  from interpolate_piecewise_linear [OF h, of 5]
  have b: "interpolate ?c 5 = Inr (2 / 100)" by simp
  from interpolate_piecewise_linear [OF h, of "3 / 2"]
  have "interpolate ?c (3 / 2) = Inr (3 / 200)" by (simp add: k)
  with a b h show ?thesis by simp
qed

text \<open>
  C7. On a curve with at least one point, strictly increasing maturities and every rate
  equal to \<open>r\<close>, \<open>interpolate c t\<close> is \<open>r\<close> for every \<open>t\<close>: below the first maturity, above
  the last one and in between.
\<close>

theorem interpolate_flat_curve:
  assumes "maturities c \<noteq> []" and "sorted_wrt (<) (maturities c)"
    and "length (rates c) = length (maturities c)"
    and "length (maturities c) < 2 ^ 31"
    and "\<forall>x \<in> set (rates c). x = r"
  shows "interpolate c t = Inr r"
proof -
  have srt: "sorted (maturities c)"
    using assms(2) by (simp add: sorted_wrt_iff_nth_less sorted_iff_nth_mono_less less_imp_le)
  have ne: "rates c \<noteq> []"
    using assms(1,3) by auto
  have nth: "rates c ! j = r" if "j < length (maturities c)" for j
    using that assms(3,5) by simp
  consider "t \<le> hd (maturities c)" | "last (maturities c) < t"
    | "hd (maturities c) < t" "t \<le> last (maturities c)"
    by linarith
  then show ?thesis
  proof cases
    case 1
    have "hd (rates c) = r" using ne assms(5) by simp
    with interpolate_below(2) [OF assms(1) srt assms(3) 1] show ?thesis by simp
  next
    case 2
    have "last (rates c) = r" using ne assms(5) by simp
    with interpolate_above(2) [OF assms(1) srt assms(3) 2] show ?thesis by simp
  next
    case 3
    note b = interpolate_between [OF assms(1-4) 3]
    have "rates c ! (lower_bound (maturities c) t - 1) = r"
      and "rates c ! lower_bound (maturities c) t = r"
      using b(2) by (simp_all add: nth)
    with b(6) show ?thesis by simp
  qed
qed

theorem interpolate_flat_curve_witness:
  "maturities \<lparr>maturities = [1, 2, 3], rates = [3 / 100, 3 / 100, 3 / 100]\<rparr> \<noteq> [] \<and>
   sorted_wrt (<) (maturities \<lparr>maturities = [1, 2, 3], rates = [3 / 100, 3 / 100, 3 / 100]\<rparr>) \<and>
   (\<forall>t. interpolate \<lparr>maturities = [1, 2, 3], rates = [3 / 100, 3 / 100, 3 / 100]\<rparr> t
          = Inr (3 / 100))"
proof -
  let ?c = "\<lparr>maturities = [1, 2, 3], rates = [3 / 100, 3 / 100, 3 / 100 :: real]\<rparr>"
  have h: "maturities ?c \<noteq> []" "sorted_wrt (<) (maturities ?c)"
    "length (rates ?c) = length (maturities ?c)" "length (maturities ?c) < 2 ^ 31"
    "\<forall>x \<in> set (rates ?c). x = 3 / 100"
    by simp_all
  from interpolate_flat_curve [OF h] h(1,2) show ?thesis by blast
qed

text \<open>
  C9. The constructor of \<open>YieldCurve\<close> fails exactly when the two sequences differ in
  length: it accepts maturities that are unsorted, duplicated or negative.
\<close>

theorem YieldCurve_fails_iff_sizes_differ:
  "(isl (YieldCurve ms rs) = (length ms \<noteq> length rs)) \<and>
   YieldCurve [3, 1, 2] [1 / 100, 2 / 100, 3 / 100]
     = Inr \<lparr>maturities = [3, 1, 2], rates = [1 / 100, 2 / 100, 3 / 100]\<rparr> \<and>
   YieldCurve [1, 1] [1 / 100, 2 / 100] = Inr \<lparr>maturities = [1, 1], rates = [1 / 100, 2 / 100]\<rparr> \<and>
   YieldCurve [- 1, 2] [1 / 100, 2 / 100]
     = Inr \<lparr>maturities = [- 1, 2], rates = [1 / 100, 2 / 100]\<rparr> \<and>
   YieldCurve [1, 2, 3] [1 / 100, 2 / 100]
     = Inl (Invalid_argument ''Maturities and rates must have the same size'')"
  by (simp add: YieldCurve_def)

text \<open>
  C10. The constructor accepts two empty sequences, and \<open>interpolate\<close> on the curve it
  builds reads the first element of the empty vector of rates, whatever \<open>t\<close> is. So
  \<open>interpolate\<close> returns a rate only on a curve with at least one point, which the
  constructor does not enforce.
\<close>

theorem interpolate_needs_a_point:
  "YieldCurve [] [] = Inr \<lparr>maturities = [], rates = []\<rparr> \<and>
   (\<forall>t. interpolate \<lparr>maturities = [], rates = []\<rparr> t = Inl Empty_vector_read) \<and>
   (\<forall>ms rs c t r. YieldCurve ms rs = Inr c \<and> interpolate c t = Inr r \<longrightarrow> ms \<noteq> [] \<and> rs \<noteq> [])"
proof (intro conjI allI impI)
  show "YieldCurve [] [] = Inr \<lparr>maturities = [], rates = []\<rparr>"
    by (simp add: YieldCurve_def)
next
  fix t
  have "lower_bound [] t = 0"
    by (simp add: lower_bound_def lower_bound_from.simps)
  then show "interpolate \<lparr>maturities = [], rates = []\<rparr> t = Inl Empty_vector_read"
    by (simp add: interpolate_def vec_front_def)
next
  fix ms rs c t r
  assume a: "YieldCurve ms rs = Inr c \<and> interpolate c t = Inr r"
  then have c: "c = \<lparr>maturities = ms, rates = rs\<rparr>" and len: "length ms = length rs"
    by (auto simp: YieldCurve_def split: if_splits)
  have "rs \<noteq> []"
  proof
    assume "rs = []"
    with len c have "c = \<lparr>maturities = [], rates = []\<rparr>" by simp
    moreover have "lower_bound [] t = 0"
      by (simp add: lower_bound_def lower_bound_from.simps)
    ultimately have "interpolate c t = Inl Empty_vector_read"
      by (simp add: interpolate_def vec_front_def)
    with a show False by simp
  qed
  with len show "ms \<noteq> []" "rs \<noteq> []" by auto
qed

theorem interpolate_needs_a_point_witness:
  "YieldCurve [1] [1 / 100] = Inr \<lparr>maturities = [1], rates = [1 / 100]\<rparr> \<and>
   interpolate \<lparr>maturities = [1], rates = [1 / 100]\<rparr> 1 = Inr (1 / 100) \<and>
   [1 :: real] \<noteq> [] \<and> [1 / 100 :: real] \<noteq> []"
proof -
  have a: "YieldCurve [1] [1 / 100] = Inr \<lparr>maturities = [1], rates = [1 / 100]\<rparr>"
    by (simp add: YieldCurve_def)
  have b: "interpolate \<lparr>maturities = [1], rates = [1 / 100]\<rparr> 1 = Inr (1 / 100)"
    by (simp add: interpolate_def lower_bound_def lower_bound_from.simps Let_def vec_front_def)
  from interpolate_needs_a_point a b show ?thesis by blast
qed

subsection \<open>The static price\<close>

lemma static_loop_price_loop:
  "static_loop e coupon_payment i price = price_loop e (yield_curve e) coupon_payment i price"
proof (induction e "yield_curve e" coupon_payment i price rule: price_loop.induct)
  case (1 e coupon_payment i price)
  show ?case
    apply (subst static_loop.simps)
    apply (subst price_loop.simps)
    apply (intro bind_e_cong refl if_cong)
    apply (rule "1.hyps")
    apply assumption+
    done
qed

text \<open>
  C4. The static price is the price on the engine's own curve: \<open>calculateStaticPrice\<close>
  and \<open>calculatePrice\<close> at \<open>yield_curve e\<close> are equal, as values and as errors, for every
  state of the engine.
\<close>

theorem calculateStaticPrice_is_calculatePrice:
  "calculateStaticPrice e = calculatePrice e (yield_curve e)"
  by (simp add: calculateStaticPrice_def calculatePrice_def static_loop_price_loop)

subsection \<open>The construction of the engine\<close>

lemma BondPriceCalculator_Inr:
  assumes "BondPriceCalculator fv cr ytm cpy yc sims samples = Inr e"
  shows "e = \<lparr>face_value = fv, coupon_rate = cr, years_to_maturity = ytm,
               coupons_per_year = cpy, yield_curve = yc, num_simulations = sims,
               is_zero_coupon = (cr = 0 \<and> sint cpy = 1), gen = samples\<rparr>"
    and "0 < fv" and "0 \<le> cr" and "0 < sint ytm" and "0 < sint cpy" and "0 < sint sims"
  using assms
  by (auto simp: BondPriceCalculator_def validateInputs_def bind_e_def Let_def
           split: if_splits)

text \<open>
  C8. The construction of the engine fails exactly when one of the five rules fails. The
  rules are checked in the order face value, coupon rate, years to maturity, coupons per
  year, number of simulations, and the first rule that fails gives the error. A failure
  produces no engine (the result is an error, not an engine); on success the stored state
  is the arguments and satisfies all five rules.
\<close>

theorem BondPriceCalculator_validation:
  "(isl (BondPriceCalculator fv cr ytm cpy yc sims samples) =
      (\<not> (0 < fv \<and> 0 \<le> cr \<and> 0 < sint ytm \<and> 0 < sint cpy \<and> 0 < sint sims))) \<and>
   (fv \<le> 0 \<longrightarrow> BondPriceCalculator fv cr ytm cpy yc sims samples
      = Inl (Invalid_argument ''Face value must be positive'')) \<and>
   (0 < fv \<and> cr < 0 \<longrightarrow> BondPriceCalculator fv cr ytm cpy yc sims samples
      = Inl (Invalid_argument ''Coupon rate cannot be negative'')) \<and>
   (0 < fv \<and> 0 \<le> cr \<and> sint ytm \<le> 0 \<longrightarrow> BondPriceCalculator fv cr ytm cpy yc sims samples
      = Inl (Invalid_argument ''Years to maturity must be positive'')) \<and>
   (0 < fv \<and> 0 \<le> cr \<and> 0 < sint ytm \<and> sint cpy \<le> 0 \<longrightarrow>
      BondPriceCalculator fv cr ytm cpy yc sims samples
      = Inl (Invalid_argument ''Coupons per year must be positive'')) \<and>
   (0 < fv \<and> 0 \<le> cr \<and> 0 < sint ytm \<and> 0 < sint cpy \<and> sint sims \<le> 0 \<longrightarrow>
      BondPriceCalculator fv cr ytm cpy yc sims samples
      = Inl (Invalid_argument ''Number of simulations must be positive'')) \<and>
   (\<forall>e. BondPriceCalculator fv cr ytm cpy yc sims samples = Inr e \<longrightarrow>
      0 < face_value e \<and> 0 \<le> coupon_rate e \<and> 0 < sint (years_to_maturity e) \<and>
      0 < sint (coupons_per_year e) \<and> 0 < sint (num_simulations e) \<and>
      face_value e = fv \<and> coupon_rate e = cr \<and> years_to_maturity e = ytm \<and>
      coupons_per_year e = cpy \<and> yield_curve e = yc \<and> num_simulations e = sims)"
proof (intro conjI allI impI)
  show "isl (BondPriceCalculator fv cr ytm cpy yc sims samples) =
      (\<not> (0 < fv \<and> 0 \<le> cr \<and> 0 < sint ytm \<and> 0 < sint cpy \<and> 0 < sint sims))"
    by (simp add: BondPriceCalculator_def validateInputs_def bind_e_def Let_def not_less not_le)
next
  fix e
  assume "BondPriceCalculator fv cr ytm cpy yc sims samples = Inr e"
  note r = BondPriceCalculator_Inr [OF this]
  from r(2-6) show "0 < face_value e" "0 \<le> coupon_rate e" "0 < sint (years_to_maturity e)"
    "0 < sint (coupons_per_year e)" "0 < sint (num_simulations e)"
    by (simp_all add: r(1))
  show "face_value e = fv" "coupon_rate e = cr" "years_to_maturity e = ytm"
    "coupons_per_year e = cpy" "yield_curve e = yc" "num_simulations e = sims"
    by (simp_all add: r(1))
qed (simp_all add: BondPriceCalculator_def validateInputs_def bind_e_def Let_def)

theorem BondPriceCalculator_validation_witness:
  "BondPriceCalculator (- 100) (5 / 100) 5 2 \<lparr>maturities = [1], rates = [1 / 100]\<rparr> 10 (\<lambda>_. 0)
     = Inl (Invalid_argument ''Face value must be positive'') \<and>
   BondPriceCalculator 1000 (- 1) 5 2 \<lparr>maturities = [1], rates = [1 / 100]\<rparr> 10 (\<lambda>_. 0)
     = Inl (Invalid_argument ''Coupon rate cannot be negative'') \<and>
   BondPriceCalculator 1000 (5 / 100) 0 2 \<lparr>maturities = [1], rates = [1 / 100]\<rparr> 10 (\<lambda>_. 0)
     = Inl (Invalid_argument ''Years to maturity must be positive'') \<and>
   BondPriceCalculator 1000 (5 / 100) 5 (- 2) \<lparr>maturities = [1], rates = [1 / 100]\<rparr> 10 (\<lambda>_. 0)
     = Inl (Invalid_argument ''Coupons per year must be positive'') \<and>
   BondPriceCalculator 1000 (5 / 100) 5 2 \<lparr>maturities = [1], rates = [1 / 100]\<rparr> 0 (\<lambda>_. 0)
     = Inl (Invalid_argument ''Number of simulations must be positive'') \<and>
   BondPriceCalculator (- 100) (- 1) 0 0 \<lparr>maturities = [1], rates = [1 / 100]\<rparr> 0 (\<lambda>_. 0)
     = Inl (Invalid_argument ''Face value must be positive'') \<and>
   (\<exists>e. BondPriceCalculator 1000 (5 / 100) 5 2 \<lparr>maturities = [1], rates = [1 / 100]\<rparr> 10 (\<lambda>_. 0)
          = Inr e \<and>
        face_value e = 1000 \<and> sint (years_to_maturity e) = 5 \<and> sint (num_simulations e) = 10)"
proof -
  let ?c = "\<lparr>maturities = [1], rates = [1 / 100 :: real]\<rparr>"
  let ?g = "\<lambda>_ :: nat. 0 :: real"
  from BondPriceCalculator_validation [of "- 100" "5 / 100" 5 2 ?c 10 ?g]
  have a: "BondPriceCalculator (- 100) (5 / 100) 5 2 ?c 10 ?g
     = Inl (Invalid_argument ''Face value must be positive'')" by simp
  from BondPriceCalculator_validation [of 1000 "- 1" 5 2 ?c 10 ?g]
  have b: "BondPriceCalculator 1000 (- 1) 5 2 ?c 10 ?g
     = Inl (Invalid_argument ''Coupon rate cannot be negative'')" by simp
  from BondPriceCalculator_validation [of 1000 "5 / 100" 0 2 ?c 10 ?g]
  have c: "BondPriceCalculator 1000 (5 / 100) 0 2 ?c 10 ?g
     = Inl (Invalid_argument ''Years to maturity must be positive'')" by simp
  from BondPriceCalculator_validation [of 1000 "5 / 100" 5 "- 2" ?c 10 ?g]
  have d: "BondPriceCalculator 1000 (5 / 100) 5 (- 2) ?c 10 ?g
     = Inl (Invalid_argument ''Coupons per year must be positive'')" by simp
  from BondPriceCalculator_validation [of 1000 "5 / 100" 5 2 ?c 0 ?g]
  have e: "BondPriceCalculator 1000 (5 / 100) 5 2 ?c 0 ?g
     = Inl (Invalid_argument ''Number of simulations must be positive'')" by simp
  from BondPriceCalculator_validation [of "- 100" "- 1" 0 0 ?c 0 ?g]
  have f: "BondPriceCalculator (- 100) (- 1) 0 0 ?c 0 ?g
     = Inl (Invalid_argument ''Face value must be positive'')" by simp
  from BondPriceCalculator_validation [of 1000 "5 / 100" 5 2 ?c 10 ?g]
  have "\<not> isl (BondPriceCalculator 1000 (5 / 100) 5 2 ?c 10 ?g)" by simp
  then obtain e0 where e0: "BondPriceCalculator 1000 (5 / 100) 5 2 ?c 10 ?g = Inr e0"
    by (cases "BondPriceCalculator 1000 (5 / 100) 5 2 ?c 10 ?g") auto
  with BondPriceCalculator_validation [of 1000 "5 / 100" 5 2 ?c 10 ?g]
  have "face_value e0 = 1000 \<and> sint (years_to_maturity e0) = 5 \<and> sint (num_simulations e0) = 10"
    by simp
  with e0 have g: "\<exists>e. BondPriceCalculator 1000 (5 / 100) 5 2 ?c 10 ?g = Inr e \<and>
        face_value e = 1000 \<and> sint (years_to_maturity e) = 5 \<and> sint (num_simulations e) = 10"
    by blast
  from a b c d e f g show ?thesis by blast
qed

text \<open>
  C3. The constructor sets \<open>is_zero_coupon\<close> exactly when the coupon rate is 0 and there is
  one coupon per year. For such an engine the price on any curve is
  \<open>face_value / (1 + r) ^ years_to_maturity\<close>, where \<open>r\<close> is the curve's rate at
  \<open>years_to_maturity\<close>: rate and exponent are annual. The price is an error exactly when
  that interpolation is one, or when \<open>1 + r = 0\<close> (a division by zero).
\<close>

theorem calculatePrice_zero_coupon:
  assumes "BondPriceCalculator fv cr ytm cpy yc sims samples = Inr e"
  shows "is_zero_coupon e = (coupon_rate e = 0 \<and> sint (coupons_per_year e) = 1) \<and>
         (is_zero_coupon e \<longrightarrow>
            calculatePrice e curve =
              (case interpolate curve (of_int (sint (years_to_maturity e))) of
                 Inl err \<Rightarrow> Inl err
               | Inr r \<Rightarrow>
                   if 1 + r = 0 then Inl Division_by_zero
                   else Inr (face_value e / (1 + r) ^ nat (sint (years_to_maturity e)))))"
proof -
  note r = BondPriceCalculator_Inr [OF assms]
  have flag: "is_zero_coupon e = (coupon_rate e = 0 \<and> sint (coupons_per_year e) = 1)"
    by (simp add: r(1))
  have y: "0 < sint (years_to_maturity e)"
    using r(4) by (simp add: r(1))
  have "calculatePrice e curve =
              (case interpolate curve (of_int (sint (years_to_maturity e))) of
                 Inl err \<Rightarrow> Inl err
               | Inr r \<Rightarrow>
                   if 1 + r = 0 then Inl Division_by_zero
                   else Inr (face_value e / (1 + r) ^ nat (sint (years_to_maturity e))))"
    if "is_zero_coupon e"
    using that y
    by (simp add: calculatePrice_def bind_e_def pow_def fdiv_def split: sum.splits)
  with flag show ?thesis by blast
qed

theorem calculatePrice_zero_coupon_witness:
  "\<exists>e. BondPriceCalculator 1000 0 5 1 \<lparr>maturities = [1], rates = [3 / 100]\<rparr> 10 (\<lambda>_. 0) = Inr e \<and>
        is_zero_coupon e \<and>
        calculatePrice e \<lparr>maturities = [1, 10], rates = [3 / 100, 3 / 100]\<rparr>
          = Inr (1000 / (103 / 100) ^ 5)"
proof -
  let ?c = "\<lparr>maturities = [1], rates = [3 / 100 :: real]\<rparr>"
  let ?g = "\<lambda>_ :: nat. 0 :: real"
  let ?curve = "\<lparr>maturities = [1, 10], rates = [3 / 100, 3 / 100 :: real]\<rparr>"
  obtain e where e: "BondPriceCalculator 1000 0 5 1 ?c 10 ?g = Inr e"
    by (simp add: BondPriceCalculator_def validateInputs_def bind_e_def Let_def)
  then have f: "face_value e = 1000" "coupon_rate e = 0" "sint (coupons_per_year e) = 1"
    "sint (years_to_maturity e) = 5"
    by (auto simp: BondPriceCalculator_def validateInputs_def bind_e_def Let_def)
  have i: "interpolate ?curve 5 = Inr (3 / 100)"
    by (simp add: interpolate_def lower_bound_def lower_bound_from.simps Let_def to_int_def
          vec_at_def bind_e_def fdiv_def)
  from calculatePrice_zero_coupon [OF e, of ?curve] f i
  have "is_zero_coupon e \<and> calculatePrice e ?curve = Inr (1000 / (103 / 100) ^ 5)"
    by simp
  with e show ?thesis by blast
qed

subsection \<open>The price of a coupon-bearing bond\<close>

text \<open>
  The coupon loop from \<open>i = m\<close> on adds the discounted coupons \<open>m..N\<close> to the running
  price, provided every step is defined: the product fits an \<^verbatim>\<open>int\<close> and leaves room
  for the last \<^verbatim>\<open>++i\<close>, the curve has a rate \<open>y j\<close> at every coupon date, and no discount
  factor is zero.
\<close>

lemma price_loop_sum:
  fixes e :: engine and y :: "nat \<Rightarrow> real"
  defines "N \<equiv> sint (years_to_maturity e) * sint (coupons_per_year e)"
  assumes "0 \<le> N" and "N < INT_MAX" and "sint (coupons_per_year e) \<noteq> 0"
    and "\<forall>j \<in> {m..nat N}. interpolate curve (real j / of_int (sint (coupons_per_year e))) = Inr (y j) \<and>
           1 + y j / of_int (sint (coupons_per_year e)) \<noteq> 0"
  shows "price_loop e curve cp (int m) p =
           Inr (p + (\<Sum>j = m..nat N. cp / (1 + y j / of_int (sint (coupons_per_year e))) ^ j))"
  using assms(5)
proof (induction "Suc (nat N) - m" arbitrary: m p)
  case 0
  from "0.hyps" have "\<not> int m \<le> N"
    by linarith
  moreover have "int_mul (sint (years_to_maturity e)) (sint (coupons_per_year e)) = Inr N"
    using assms(2,3) by (simp add: int_mul_def checked_int_def N_def INT_MAX_def INT_MIN_def)
  moreover have "{m..nat N} = {}"
    using "0.hyps" by simp
  ultimately show ?case
    by (subst price_loop.simps) (simp add: bind_e_def del: of_int_sint)
next
  case (Suc d)
  from Suc.hyps(2) assms(2) have le: "int m \<le> N" and mle: "m \<le> nat N"
    by linarith+
  have mul: "int_mul (sint (years_to_maturity e)) (sint (coupons_per_year e)) = Inr N"
    using assms(2,3) by (simp add: int_mul_def checked_int_def N_def INT_MAX_def INT_MIN_def)
  have t: "fdiv (real m) (of_int (sint (coupons_per_year e))) = Inr (real m / of_int (sint (coupons_per_year e)))"
    using assms(4) by (simp add: fdiv_def del: of_int_sint)
  from Suc.prems mle
  have y: "interpolate curve (real m / of_int (sint (coupons_per_year e))) = Inr (y m)" and nz: "1 + y m / of_int (sint (coupons_per_year e)) \<noteq> 0"
    by simp_all
  have q: "fdiv (y m) (of_int (sint (coupons_per_year e))) = Inr (y m / of_int (sint (coupons_per_year e)))"
    using assms(4) by (simp add: fdiv_def del: of_int_sint)
  have d: "pow (1 + y m / of_int (sint (coupons_per_year e))) (int m) = Inr ((1 + y m / of_int (sint (coupons_per_year e))) ^ m)"
    by (simp add: pow_def)
  have c: "fdiv cp ((1 + y m / of_int (sint (coupons_per_year e))) ^ m) = Inr (cp / (1 + y m / of_int (sint (coupons_per_year e))) ^ m)"
    using nz by (simp add: fdiv_def)
  have inc: "int_incr (int m) = Inr (int (Suc m))"
    using le assms(3) by (simp add: int_incr_def checked_int_def INT_MAX_def INT_MIN_def)
  have rest: "price_loop e curve cp (int (Suc m)) (p + cp / (1 + y m / of_int (sint (coupons_per_year e))) ^ m) =
      Inr (p + cp / (1 + y m / of_int (sint (coupons_per_year e))) ^ m +
           (\<Sum>j = Suc m..nat N. cp / (1 + y j / of_int (sint (coupons_per_year e))) ^ j))"
  proof (rule Suc.hyps(1))
    show "d = Suc (nat N) - Suc m"
      using Suc.hyps(2) by simp
    show "\<forall>j\<in>{Suc m..nat N}. interpolate curve (real j / of_int (sint (coupons_per_year e))) = Inr (y j) \<and>
           1 + y j / of_int (sint (coupons_per_year e)) \<noteq> 0"
      using Suc.prems by simp
  qed
  have "price_loop e curve cp (int m) p =
      price_loop e curve cp (int (Suc m)) (p + cp / (1 + y m / of_int (sint (coupons_per_year e))) ^ m)"
    by (subst price_loop.simps) (simp add: mul le t y q d c inc bind_e_def del: of_nat_Suc of_int_sint)
  also note rest
  finally show ?case
    using mle by (simp add: sum.atLeast_Suc_atMost)
qed

text \<open>
  C1, amended. For an engine that the constructor built with a positive coupon rate or a
  number of coupons per year other than 1 (so that \<open>is_zero_coupon\<close> is false), and a curve,
  let \<open>N = years_to_maturity * coupons_per_year\<close>. Provided \<open>N\<close> is less than \<open>INT_MAX\<close>
  (the product fits an \<^verbatim>\<open>int\<close> and the loop counter can pass it), and the formula's
  own operations are defined (the curve has a rate \<open>y i\<close> at every coupon date
  \<open>i / coupons_per_year\<close> and a rate \<open>yN\<close> at the maturity, and no discount factor is zero),
  \<open>calculatePrice\<close> returns the sum over \<open>i = 1..N\<close> of
  \<open>coupon_payment / (1 + y i / coupons_per_year) ^ i\<close>, with
  \<open>coupon_payment = face_value * coupon_rate / coupons_per_year\<close>, plus
  \<open>face_value / (1 + yN / coupons_per_year) ^ N\<close>, the final rate being the curve's rate at
  \<open>years_to_maturity\<close>, looked up again after the loop.
\<close>

theorem calculatePrice_coupon_bond:
  fixes y :: "nat \<Rightarrow> real"
  assumes "BondPriceCalculator fv cr ytm cpy yc sims samples = Inr e"
    and "0 < cr \<or> sint cpy \<noteq> 1"
    and "sint ytm * sint cpy < INT_MAX"
    and "\<forall>i \<in> {1..nat (sint ytm * sint cpy)}.
           interpolate curve (real i / of_int (sint cpy)) = Inr (y i) \<and>
           1 + y i / of_int (sint cpy) \<noteq> 0"
    and "interpolate curve (of_int (sint ytm)) = Inr yN"
    and "1 + yN / of_int (sint cpy) \<noteq> 0"
  shows "\<not> is_zero_coupon e \<and>
         calculatePrice e curve =
           Inr ((\<Sum>i = 1..nat (sint ytm * sint cpy).
                   (fv * cr / of_int (sint cpy)) / (1 + y i / of_int (sint cpy)) ^ i) +
                fv / (1 + yN / of_int (sint cpy)) ^ nat (sint ytm * sint cpy))"
proof -
  note r = BondPriceCalculator_Inr [OF assms(1)]
  have f: "face_value e = fv" "coupon_rate e = cr" "years_to_maturity e = ytm"
    "coupons_per_year e = cpy"
    by (simp_all add: r(1))
  have nz: "\<not> is_zero_coupon e"
    using assms(2) r(3) by (auto simp: r(1))
  have k: "sint cpy \<noteq> 0" and n0: "0 \<le> sint ytm * sint cpy"
    using r(4,5) by simp_all
  have cp: "fdiv (fv * cr) (of_int (sint cpy)) = Inr (fv * cr / of_int (sint cpy))"
    using k by (simp add: fdiv_def del: of_int_sint)
  have loop: "price_loop e curve (fv * cr / of_int (sint cpy)) 1 0 =
      Inr (0 + (\<Sum>i = 1..nat (sint ytm * sint cpy).
                   (fv * cr / of_int (sint cpy)) / (1 + y i / of_int (sint cpy)) ^ i))"
    using price_loop_sum [of e 1 curve y "fv * cr / of_int (sint cpy)" 0] n0 assms(3,4) k
    by (simp add: f del: of_int_sint)
  have q: "fdiv yN (of_int (sint cpy)) = Inr (yN / of_int (sint cpy))"
    using k by (simp add: fdiv_def del: of_int_sint)
  have mul: "int_mul (sint ytm) (sint cpy) = Inr (sint ytm * sint cpy)"
    using n0 assms(3) by (simp add: int_mul_def checked_int_def INT_MAX_def INT_MIN_def)
  have d: "pow (1 + yN / of_int (sint cpy)) (sint ytm * sint cpy) =
      Inr ((1 + yN / of_int (sint cpy)) ^ nat (sint ytm * sint cpy))"
    using n0 by (simp add: pow_def)
  have last: "fdiv fv ((1 + yN / of_int (sint cpy)) ^ nat (sint ytm * sint cpy)) =
      Inr (fv / (1 + yN / of_int (sint cpy)) ^ nat (sint ytm * sint cpy))"
    using assms(6) by (simp add: fdiv_def)
  have "calculatePrice e curve =
           Inr ((\<Sum>i = 1..nat (sint ytm * sint cpy).
                   (fv * cr / of_int (sint cpy)) / (1 + y i / of_int (sint cpy)) ^ i) +
                fv / (1 + yN / of_int (sint cpy)) ^ nat (sint ytm * sint cpy))"
    using nz
    by (simp add: calculatePrice_def f cp loop assms(5) q mul d last bind_e_def
             del: of_int_sint)
  with nz show ?thesis by simp
qed

theorem calculatePrice_coupon_bond_witness:
  "\<exists>e. BondPriceCalculator 1000 (5 / 100) 1 2 \<lparr>maturities = [1], rates = [5 / 100]\<rparr> 10 (\<lambda>_. 0)
          = Inr e \<and>
        sint (1 :: 32 word) * sint (2 :: 32 word) < INT_MAX \<and>
        (\<forall>t. interpolate \<lparr>maturities = [1], rates = [5 / 100]\<rparr> t = Inr (5 / 100)) \<and>
        calculatePrice e \<lparr>maturities = [1], rates = [5 / 100]\<rparr> = Inr 1000"
proof -
  let ?c = "\<lparr>maturities = [1], rates = [5 / 100 :: real]\<rparr>"
  let ?g = "\<lambda>_ :: nat. 0 :: real"
  obtain e where e: "BondPriceCalculator 1000 (5 / 100) 1 2 ?c 10 ?g = Inr e"
    by (simp add: BondPriceCalculator_def validateInputs_def bind_e_def Let_def)
  have flat: "interpolate ?c t = Inr (5 / 100)" for t
  proof (cases "t \<le> 1")
    case True
    then show ?thesis
      using interpolate_below(2) [of ?c t] by simp
  next
    case False
    then show ?thesis
      using interpolate_above(2) [of ?c t] by simp
  qed
  have small: "sint (1 :: 32 word) * sint (2 :: 32 word) < INT_MAX"
    by (simp add: INT_MAX_def)
  have "calculatePrice e ?c =
           Inr ((\<Sum>i = 1..nat (sint (1 :: 32 word) * sint (2 :: 32 word)).
                   (1000 * (5 / 100) / of_int (sint (2 :: 32 word))) /
                   (1 + (5 / 100) / of_int (sint (2 :: 32 word))) ^ i) +
                1000 / (1 + (5 / 100) / of_int (sint (2 :: 32 word))) ^
                  nat (sint (1 :: 32 word) * sint (2 :: 32 word)))"
    using calculatePrice_coupon_bond
            [where y = "\<lambda>_. 5 / 100" and curve = ?c and yN = "5 / 100", OF e _ small] flat
    by simp
  also have "\<dots> = Inr 1000"
    by (simp add: numeral_2_eq_2 power2_eq_square)
  finally have "calculatePrice e ?c = Inr 1000" .
  with e small flat show ?thesis by blast
qed

text \<open>
  When the product \<open>years_to_maturity * coupons_per_year\<close> does not fit an \<^verbatim>\<open>int\<close>, the
  first test of the coupon loop already overflows.
\<close>

lemma price_loop_overflow:
  assumes "int_mul (sint (years_to_maturity e)) (sint (coupons_per_year e)) = Inl err"
  shows "price_loop e curve cp i p = Inl err"
  by (subst price_loop.simps) (simp add: assms bind_e_def)

text \<open>
  C1, as stated for every engine, fails where the product overflows. The constructor
  accepts face value 1000, coupon rate 0.5, 65536 years and 65536 coupons per year (each
  rule looks at one field), the flag \<open>is_zero_coupon\<close> is false, and
  \<open>65536 * 65536 = 2^32\<close> is no \<^verbatim>\<open>int\<close>: \<open>calculatePrice\<close> has no defined result, where the
  claim promises a sum of \<open>2^32\<close> coupons.
\<close>

theorem calculatePrice_coupon_bond_counterexample:
  "BondPriceCalculator 1000 (1 / 2) 65536 65536 \<lparr>maturities = [1], rates = [1 / 100]\<rparr> 1 real
     = Inr \<lparr>face_value = 1000, coupon_rate = 1 / 2, years_to_maturity = 65536,
             coupons_per_year = 65536, yield_curve = \<lparr>maturities = [1], rates = [1 / 100]\<rparr>,
             num_simulations = 1, is_zero_coupon = False, gen = real\<rparr> \<and>
   calculatePrice
     \<lparr>face_value = 1000, coupon_rate = 1 / 2, years_to_maturity = 65536,
      coupons_per_year = 65536, yield_curve = \<lparr>maturities = [1], rates = [1 / 100]\<rparr>,
      num_simulations = 1, is_zero_coupon = False, gen = real\<rparr>
     \<lparr>maturities = [1], rates = [1 / 100]\<rparr>
     = Inl Signed_overflow"
proof -
  let ?c = "\<lparr>maturities = [1], rates = [1 / 100 :: real]\<rparr>"
  let ?e = "\<lparr>face_value = 1000, coupon_rate = 1 / 2, years_to_maturity = 65536,
             coupons_per_year = 65536, yield_curve = ?c,
             num_simulations = 1, is_zero_coupon = False, gen = real\<rparr>"
  have e: "BondPriceCalculator 1000 (1 / 2) 65536 65536 ?c 1 real = Inr ?e"
    by (simp add: BondPriceCalculator_def validateInputs_def bind_e_def Let_def)
  have "int_mul (sint (years_to_maturity ?e)) (sint (coupons_per_year ?e)) = Inl Signed_overflow"
    by (simp add: int_mul_def checked_int_def INT_MAX_def)
  then have "price_loop ?e ?c cp 1 0 = Inl Signed_overflow" for cp
    by (rule price_loop_overflow)
  then have "calculatePrice ?e ?c = Inl Signed_overflow"
    by (simp add: calculatePrice_def fdiv_def bind_e_def)
  with e show ?thesis
    by simp
qed

text \<open>
  Conversely, the coupon loop returns a price only when every step is defined: these are
  the conditions under which the sum above is stated.
\<close>

lemma price_loop_defined:
  assumes "price_loop e curve cp i p = Inr p'" and "1 \<le> i"
  shows "(i \<le> sint (years_to_maturity e) * sint (coupons_per_year e) \<longrightarrow>
            sint (years_to_maturity e) * sint (coupons_per_year e) < INT_MAX \<and>
            sint (coupons_per_year e) \<noteq> 0) \<and>
         (\<forall>j \<in> {i..sint (years_to_maturity e) * sint (coupons_per_year e)}.
            \<exists>y. interpolate curve (of_int j / of_int (sint (coupons_per_year e))) = Inr y \<and>
                1 + y / of_int (sint (coupons_per_year e)) \<noteq> 0)"
  using assms
proof (induction e curve cp i p rule: price_loop.induct)
  case (1 e curve cp i p)
  let ?N = "sint (years_to_maturity e) * sint (coupons_per_year e)"
  let ?K = "of_int (sint (coupons_per_year e)) :: real"
  show ?case
  proof (cases "i \<le> ?N")
    case False
    then show ?thesis
      by simp
  next
    case True
    from "1.prems"(1) obtain n where
      mul: "int_mul (sint (years_to_maturity e)) (sint (coupons_per_year e)) = Inr n"
      by (subst (asm) price_loop.simps) (auto simp: bind_e_def split: sum.splits)
    then have n: "n = ?N"
      by (auto simp: int_mul_def checked_int_def split: if_splits)
    with True have le: "i \<le> n"
      by simp
    from "1.prems"(1) mul le obtain t y q d c i' where
      t: "fdiv (of_int i) ?K = Inr t" and
      y: "interpolate curve t = Inr y" and
      q: "fdiv y ?K = Inr q" and
      d: "pow (1 + q) i = Inr d" and
      c: "fdiv cp d = Inr c" and
      i': "int_incr i = Inr i'" and
      r: "price_loop e curve cp i' (p + c) = Inr p'"
      by (subst (asm) price_loop.simps) (auto simp: bind_e_def split: sum.splits)
    from t have K: "sint (coupons_per_year e) \<noteq> 0" and t_eq: "t = of_int i / ?K"
      by (auto simp: fdiv_def split: if_splits simp del: of_int_sint)
    from q have q_eq: "q = y / ?K"
      by (auto simp: fdiv_def split: if_splits)
    from d "1.prems"(2) have d_eq: "d = (1 + q) ^ nat i"
      by (auto simp: pow_def split: if_splits)
    from c have "d \<noteq> 0"
      by (auto simp: fdiv_def split: if_splits)
    with d_eq "1.prems"(2) have nz: "1 + y / ?K \<noteq> 0"
      by (auto simp: q_eq simp del: of_int_sint)
    from i' have i'_eq: "i' = i + 1" and iltmax: "i < INT_MAX"
      by (auto simp: int_incr_def checked_int_def split: if_splits)
    have "1 \<le> i'"
      using "1.prems"(2) i'_eq by simp
    note IH = "1.IH" [OF mul le t y q d c i' r this, unfolded i'_eq]
    have "?N < INT_MAX"
      using IH iltmax True by linarith
    moreover have "\<forall>j \<in> {i..?N}. \<exists>y. interpolate curve (of_int j / ?K) = Inr y \<and> 1 + y / ?K \<noteq> 0"
    proof
      fix j assume "j \<in> {i..?N}"
      then consider "j = i" | "j \<in> {i + 1..?N}" by force
      then show "\<exists>y. interpolate curve (of_int j / ?K) = Inr y \<and> 1 + y / ?K \<noteq> 0"
      proof cases
        case 1
        with y nz show ?thesis by (auto simp: t_eq)
      next
        case 2
        with IH show ?thesis by blast
      qed
    qed
    ultimately show ?thesis
      using K by blast
  qed
qed

lemma calculatePrice_coupon_bond_defined:
  assumes "BondPriceCalculator fv cr ytm cpy yc sims samples = Inr e"
    and "\<not> is_zero_coupon e"
    and "calculatePrice e curve = Inr p"
  shows "sint ytm * sint cpy < INT_MAX \<and>
         (\<forall>i \<in> {1..nat (sint ytm * sint cpy)}.
            \<exists>y. interpolate curve (real i / of_int (sint cpy)) = Inr y \<and>
                1 + y / of_int (sint cpy) \<noteq> 0) \<and>
         (\<exists>yN. interpolate curve (of_int (sint ytm)) = Inr yN \<and>
               1 + yN / of_int (sint cpy) \<noteq> 0)"
proof -
  note r = BondPriceCalculator_Inr [OF assms(1)]
  have f: "face_value e = fv" "coupon_rate e = cr" "years_to_maturity e = ytm"
    "coupons_per_year e = cpy"
    by (simp_all add: r(1))
  let ?N = "sint ytm * sint cpy"
  let ?K = "of_int (sint cpy) :: real"
  have one: "1 \<le> ?N"
    using r(4,5) by (simp add: int_one_le_iff_zero_less)
  from assms(2,3) obtain cp price yN q n d l where
    loop: "price_loop e curve cp 1 0 = Inr price" and
    yN: "interpolate curve (of_int (sint ytm)) = Inr yN" and
    q: "fdiv yN ?K = Inr q" and
    mul: "int_mul (sint ytm) (sint cpy) = Inr n" and
    d: "pow (1 + q) n = Inr d" and
    l: "fdiv fv d = Inr l"
    by (auto simp: calculatePrice_def f bind_e_def split: sum.splits simp del: of_int_sint)
  from price_loop_defined [OF loop] one
  have lt: "?N < INT_MAX" and
    all: "\<forall>j \<in> {1..?N}. \<exists>y. interpolate curve (of_int j / ?K) = Inr y \<and> 1 + y / ?K \<noteq> 0"
    by (simp_all add: f del: of_int_sint)
  have "\<forall>i \<in> {1..nat ?N}. \<exists>y. interpolate curve (real i / ?K) = Inr y \<and> 1 + y / ?K \<noteq> 0"
  proof
    fix i assume "i \<in> {1..nat ?N}"
    then have "int i \<in> {1..?N}" by auto
    with all have "\<exists>y. interpolate curve (of_int (int i) / ?K) = Inr y \<and> 1 + y / ?K \<noteq> 0"
      by blast
    then show "\<exists>y. interpolate curve (real i / ?K) = Inr y \<and> 1 + y / ?K \<noteq> 0"
      by simp
  qed
  moreover have "1 + yN / ?K \<noteq> 0"
  proof -
    from q have q_eq: "q = yN / ?K"
      by (auto simp: fdiv_def split: if_splits)
    from mul have "n = ?N"
      by (auto simp: int_mul_def checked_int_def split: if_splits)
    with one d have "d = (1 + q) ^ nat ?N"
      by (auto simp: pow_def split: if_splits)
    moreover from l have "d \<noteq> 0"
      by (auto simp: fdiv_def split: if_splits)
    ultimately show ?thesis
      using one by (auto simp: q_eq simp del: of_int_sint)
  qed
  ultimately show ?thesis
    using lt yN by blast
qed

subsection \<open>The perturbed curve\<close>

lemma interpolate_total:
  assumes "maturities c \<noteq> []" and "sorted_wrt (<) (maturities c)"
    and "length (rates c) = length (maturities c)"
    and "length (maturities c) < 2 ^ 31"
  shows "\<exists>r. interpolate c t = Inr r"
proof -
  have srt: "sorted (maturities c)"
    using assms(2) by (simp add: sorted_wrt_iff_nth_less sorted_iff_nth_mono_less less_imp_le)
  consider "t \<le> hd (maturities c)" | "last (maturities c) < t"
    | "hd (maturities c) < t" "t \<le> last (maturities c)"
    by linarith
  then show ?thesis
  proof cases
    case 1
    from interpolate_below(2) [OF assms(1) srt assms(3) 1] show ?thesis by blast
  next
    case 2
    from interpolate_above(2) [OF assms(1) srt assms(3) 2] show ?thesis by blast
  next
    case 3
    from interpolate_between(6) [OF assms 3] show ?thesis by blast
  qed
qed

text \<open>Between two rates that are not negative, the interpolated rate is not negative.\<close>

lemma linear_interpolation_nonneg:
  fixes r0 r1 t t0 t1 :: real
  assumes "0 \<le> r0" and "0 \<le> r1" and "t0 < t" and "t \<le> t1"
  shows "0 \<le> r0 + (r1 - r0) * (t - t0) / (t1 - t0)"
proof -
  define s where "s = (t - t0) / (t1 - t0)"
  have "0 \<le> s" and "s \<le> 1"
    using assms(3,4) by (simp_all add: s_def)
  then have "0 \<le> r0 * (1 - s) + r1 * s"
    using assms(1,2) by simp
  also have "r0 * (1 - s) + r1 * s = r0 + (r1 - r0) * s"
    by (simp add: algebra_simps)
  also have "\<dots> = r0 + (r1 - r0) * (t - t0) / (t1 - t0)"
    by (simp add: s_def)
  finally show ?thesis .
qed

lemma interpolate_nonneg:
  assumes "maturities c \<noteq> []" and "sorted_wrt (<) (maturities c)"
    and "length (rates c) = length (maturities c)"
    and "length (maturities c) < 2 ^ 31"
    and "\<forall>x \<in> set (rates c). 0 \<le> x"
  shows "\<exists>r. interpolate c t = Inr r \<and> 0 \<le> r"
proof -
  have srt: "sorted (maturities c)"
    using assms(2) by (simp add: sorted_wrt_iff_nth_less sorted_iff_nth_mono_less less_imp_le)
  have ne: "rates c \<noteq> []"
    using assms(1,3) by auto
  have nth: "0 \<le> rates c ! j" if "j < length (maturities c)" for j
    using that assms(3,5) by simp
  consider "t \<le> hd (maturities c)" | "last (maturities c) < t"
    | "hd (maturities c) < t" "t \<le> last (maturities c)"
    by linarith
  then show ?thesis
  proof cases
    case 1
    have "0 \<le> hd (rates c)" using ne assms(5) by simp
    with interpolate_below(2) [OF assms(1) srt assms(3) 1] show ?thesis by simp
  next
    case 2
    have "0 \<le> last (rates c)" using ne assms(5) by simp
    with interpolate_above(2) [OF assms(1) srt assms(3) 2] show ?thesis by simp
  next
    case 3
    note b = interpolate_between [OF assms(1-4) 3]
    have "0 \<le> rates c ! (lower_bound (maturities c) t - 1)"
      and "0 \<le> rates c ! lower_bound (maturities c) t"
      using b(2) by (simp_all add: nth)
    then have "0 \<le> rates c ! (lower_bound (maturities c) t - 1) +
        (rates c ! lower_bound (maturities c) t - rates c ! (lower_bound (maturities c) t - 1)) *
        (t - maturities c ! (lower_bound (maturities c) t - 1)) /
        (maturities c ! lower_bound (maturities c) t -
         maturities c ! (lower_bound (maturities c) t - 1))"
      using b(3,4) by (rule linear_interpolation_nonneg)
    with b(6) show ?thesis by simp
  qed
qed

text \<open>
  What the loop of \<open>shiftYieldCurve\<close> returns from the state \<open>(i, ms, rs)\<close>: the maturities
  \<open>i..years_to_maturity\<close> appended to \<open>ms\<close>; appended to \<open>rs\<close>, for each of them, the base
  curve's rate \<open>b j\<close> plus the next sample, floored at 0; and the engine with its generator
  advanced by one sample for each maturity.
\<close>

lemma shift_loop_Inr:
  assumes "shift_loop e i ms rs = Inr (ms', rs', e')"
  shows "ms' = ms @ map of_int [i..sint (years_to_maturity e)] \<and>
         (\<exists>b. (\<forall>j \<in> {i..sint (years_to_maturity e)}.
                  interpolate (yield_curve e) (of_int j) = Inr (b j)) \<and>
              rs' = rs @ map (\<lambda>j. max 0 (b j + gen e (nat (j - i))))
                           [i..sint (years_to_maturity e)]) \<and>
         e' = e\<lparr>gen := (\<lambda>k. gen e (k + nat (sint (years_to_maturity e) + 1 - i)))\<rparr> \<and>
         (i \<le> sint (years_to_maturity e) \<longrightarrow> sint (years_to_maturity e) < INT_MAX)"
  using assms
proof (induction e i ms rs rule: shift_loop.induct)
  case (1 e i ms rs)
  let ?Y = "sint (years_to_maturity e)"
  show ?case
  proof (cases "i \<le> ?Y")
    case False
    with "1.prems" have "ms' = ms" "rs' = rs" "e' = e"
      by (simp_all add: shift_loop.simps [of e i])
    with False show ?thesis
      by simp
  next
    case True
    obtain x e2 where d: "dist_gen e = (x, e2)"
      by fastforce
    then have x: "x = gen e 0" and e2: "e2 = e\<lparr>gen := (\<lambda>k. gen e (Suc k))\<rparr>"
      by (simp_all add: dist_gen_def)
    from "1.prems" True d obtain base_rate i' where
      b: "interpolate (yield_curve e) (of_int i) = Inr base_rate" and
      i': "int_incr i = Inr i'" and
      r: "shift_loop e2 i' (ms @ [of_int i]) (rs @ [max 0 (base_rate + x)]) = Inr (ms', rs', e')"
      by (auto simp: shift_loop.simps [of e i] bind_e_def split: sum.splits)
    from i' have i'_eq: "i' = i + 1" and iltmax: "i < INT_MAX"
      by (auto simp: int_incr_def checked_int_def split: if_splits)
    have Y2: "sint (years_to_maturity e2) = ?Y" and yc2: "yield_curve e2 = yield_curve e"
      and gen2: "gen e2 = (\<lambda>k. gen e (Suc k))"
      by (simp_all add: e2)
    note IH = "1.IH" [OF True b refl d [symmetric] refl i' r, unfolded Y2 yc2 gen2 i'_eq]
    from IH obtain b' where
      ms': "ms' = (ms @ [of_int i]) @ map of_int [i + 1..?Y]" and
      b': "\<forall>j \<in> {i + 1..?Y}. interpolate (yield_curve e) (of_int j) = Inr (b' j)" and
      rs': "rs' = (rs @ [max 0 (base_rate + x)]) @
                  map (\<lambda>j. max 0 (b' j + gen e (Suc (nat (j - (i + 1)))))) [i + 1..?Y]" and
      e': "e' = e2\<lparr>gen := (\<lambda>k. gen e (Suc (k + nat (?Y + 1 - (i + 1)))))\<rparr>" and
      lt: "i + 1 \<le> ?Y \<longrightarrow> ?Y < INT_MAX"
      by blast
    have upto: "[i..?Y] = i # [i + 1..?Y]"
      using True by (simp add: upto_rec1)
    define b where "b = b'(i := base_rate)"
    have "ms' = ms @ map of_int [i..?Y]"
      by (simp add: ms' upto)
    moreover have "\<forall>j \<in> {i..?Y}. interpolate (yield_curve e) (of_int j) = Inr (b j)"
    proof
      fix j assume "j \<in> {i..?Y}"
      then consider "j = i" | "j \<in> {i + 1..?Y}" by force
      then show "interpolate (yield_curve e) (of_int j) = Inr (b j)"
        using b b' by cases (auto simp: b_def)
    qed
    moreover have "rs' = rs @ map (\<lambda>j. max 0 (b j + gen e (nat (j - i)))) [i..?Y]"
    proof -
      have "map (\<lambda>j. max 0 (b' j + gen e (Suc (nat (j - (i + 1)))))) [i + 1..?Y] =
            map (\<lambda>j. max 0 (b j + gen e (nat (j - i)))) [i + 1..?Y]"
      proof (rule map_cong [OF refl])
        fix j assume "j \<in> set [i + 1..?Y]"
        then have "i + 1 \<le> j" by simp
        then have "Suc (nat (j - (i + 1))) = nat (j - i)" and "b j = b' j"
          by (auto simp: b_def)
        then show "max 0 (b' j + gen e (Suc (nat (j - (i + 1))))) =
                   max 0 (b j + gen e (nat (j - i)))"
          by simp
      qed
      then show ?thesis
        by (simp add: rs' upto x b_def)
    qed
    moreover have "e' = e\<lparr>gen := (\<lambda>k. gen e (k + nat (?Y + 1 - i)))\<rparr>"
    proof -
      have "nat (?Y + 1 - i) = Suc (nat (?Y - i))"
        using True by simp
      then show ?thesis
        by (simp add: e' e2)
    qed
    moreover have "?Y < INT_MAX"
      using lt iltmax True by linarith
    ultimately show ?thesis
      by blast
  qed
qed

text \<open>
  The loop returns whenever the base curve has a rate at every maturity and the last
  \<^verbatim>\<open>++i\<close> does not overflow.
\<close>

lemma shift_loop_total:
  assumes "\<forall>t. \<exists>r. interpolate (yield_curve e) t = Inr r"
    and "sint (years_to_maturity e) < INT_MAX" and "0 \<le> i"
  shows "\<exists>ms' rs' e'. shift_loop e i ms rs = Inr (ms', rs', e')"
  using assms
proof (induction "nat (sint (years_to_maturity e) + 1 - i)" arbitrary: e i ms rs)
  case 0
  then have "\<not> i \<le> sint (years_to_maturity e)"
    by linarith
  then show ?case
    by (subst shift_loop.simps) simp
next
  case (Suc d)
  let ?Y = "sint (years_to_maturity e)"
  let ?e2 = "e\<lparr>gen := (\<lambda>k. gen e (Suc k))\<rparr>"
  from Suc.hyps(2) have le: "i \<le> ?Y"
    by linarith
  from Suc.prems(1) obtain base_rate where
    b: "interpolate (yield_curve e) (of_int i) = Inr base_rate"
    by blast
  have inc: "int_incr i = Inr (i + 1)"
    using le Suc.prems(2,3) by (simp add: int_incr_def checked_int_def INT_MIN_def)
  have "\<exists>ms' rs' e'. shift_loop ?e2 (i + 1) (ms @ [of_int i])
          (rs @ [max 0 (base_rate + gen e 0)]) = Inr (ms', rs', e')"
  proof (rule Suc.hyps(1))
    show "d = nat (sint (years_to_maturity ?e2) + 1 - (i + 1))"
      using Suc.hyps(2) by simp
    show "\<forall>t. \<exists>r. interpolate (yield_curve ?e2) t = Inr r"
      using Suc.prems(1) by simp
    show "sint (years_to_maturity ?e2) < INT_MAX"
      using Suc.prems(2) by simp
    show "0 \<le> i + 1"
      using Suc.prems(3) by simp
  qed
  moreover have "shift_loop e i ms rs =
      shift_loop ?e2 (i + 1) (ms @ [of_int i]) (rs @ [max 0 (base_rate + gen e 0)])"
    by (subst shift_loop.simps) (simp add: le b inc dist_gen_def bind_e_def)
  ultimately show ?case
    by simp
qed

lemma shiftYieldCurve_total:
  assumes "maturities (yield_curve e) \<noteq> []" and "sorted_wrt (<) (maturities (yield_curve e))"
    and "length (rates (yield_curve e)) = length (maturities (yield_curve e))"
    and "length (maturities (yield_curve e)) < 2 ^ 31"
    and "sint (years_to_maturity e) < INT_MAX"
  shows "\<exists>c e'. shiftYieldCurve e = Inr (c, e')"
proof -
  have "\<forall>t. \<exists>r. interpolate (yield_curve e) t = Inr r"
    using interpolate_total [OF assms(1-4)] by blast
  then obtain ms' rs' e' where l: "shift_loop e 1 [] [] = Inr (ms', rs', e')"
    using shift_loop_total [of e 1 "[]" "[]"] assms(5) by auto
  from shift_loop_Inr [OF l] have "length ms' = length rs'"
    by auto
  then show ?thesis
    by (simp add: shiftYieldCurve_def l bind_e_def YieldCurve_def)
qed

text \<open>
  C6. For an engine that the constructor built and any sequence of samples, the curve that
  \<open>shiftYieldCurve\<close> returns has the maturities \<open>1..years_to_maturity\<close>; its rate at
  maturity \<open>j\<close> is the base curve's rate at \<open>j\<close> plus the \<open>j\<close>-th sample, floored at 0; so
  every rate is at least 0, and so is every rate that \<open>interpolate\<close> returns on it, at
  every \<open>t\<close>. The base curve of the engine is the same afterwards: only the generator has
  advanced, by \<open>years_to_maturity\<close> samples.
\<close>

theorem shiftYieldCurve_nonneg:
  assumes "BondPriceCalculator fv cr ytm cpy yc sims samples = Inr e"
    and "shiftYieldCurve e = Inr (c, e')"
  shows "maturities c = map of_int [1..sint ytm] \<and>
         (\<exists>b. (\<forall>j \<in> {1..sint ytm}. interpolate yc (of_int j) = Inr (b j)) \<and>
              rates c = map (\<lambda>j. max 0 (b j + samples (nat (j - 1)))) [1..sint ytm]) \<and>
         (\<forall>r \<in> set (rates c). 0 \<le> r) \<and>
         (\<forall>t. \<exists>r. interpolate c t = Inr r \<and> 0 \<le> r) \<and>
         yield_curve e' = yc \<and>
         e' = e\<lparr>gen := (\<lambda>k. samples (k + nat (sint ytm)))\<rparr>"
proof -
  note r = BondPriceCalculator_Inr [OF assms(1)]
  have f: "years_to_maturity e = ytm" "yield_curve e = yc" "gen e = samples"
    by (simp_all add: r(1))
  from assms(2) obtain ms' rs' where
    l: "shift_loop e 1 [] [] = Inr (ms', rs', e')" and c: "c = \<lparr>maturities = ms', rates = rs'\<rparr>"
    by (auto simp: shiftYieldCurve_def bind_e_def YieldCurve_def split: sum.splits if_splits)
  from shift_loop_Inr [OF l, unfolded f] obtain b where
    ms': "ms' = map of_int [1..sint ytm]" and
    b: "\<forall>j \<in> {1..sint ytm}. interpolate yc (of_int j) = Inr (b j)" and
    rs': "rs' = map (\<lambda>j. max 0 (b j + samples (nat (j - 1)))) [1..sint ytm]" and
    e': "e' = e\<lparr>gen := (\<lambda>k. samples (k + nat (sint ytm + 1 - 1)))\<rparr>"
    by auto
  have nonneg: "\<forall>r \<in> set (rates c). 0 \<le> r"
    by (auto simp: c rs')
  have ne: "maturities c \<noteq> []"
    using r(4) by (simp add: c ms' upto_rec1)
  have strict: "sorted_wrt (<) (maturities c)"
    by (simp add: c ms' sorted_wrt_map sorted_wrt_iff_nth_less)
  have len: "length (rates c) = length (maturities c)"
    by (simp add: c ms' rs')
  have "sint ytm < 2 ^ 31"
    using sint_lt [of ytm] by simp
  then have small: "length (maturities c) < 2 ^ 31"
    using r(4) by (simp add: c ms')
  have "\<forall>t. \<exists>r. interpolate c t = Inr r \<and> 0 \<le> r"
    using interpolate_nonneg [OF ne strict len small nonneg] by blast
  moreover have "maturities c = map of_int [1..sint ytm]"
    by (simp add: c ms')
  moreover have "rates c = map (\<lambda>j. max 0 (b j + samples (nat (j - 1)))) [1..sint ytm]"
    by (simp add: c rs')
  moreover have "yield_curve e' = yc" and "e' = e\<lparr>gen := (\<lambda>k. samples (k + nat (sint ytm)))\<rparr>"
    using e' f(2) by simp_all
  ultimately show ?thesis
    using b nonneg by blast
qed

theorem shiftYieldCurve_nonneg_witness:
  "\<exists>e c e'.
     BondPriceCalculator 1000 (5 / 100) 2 1 \<lparr>maturities = [1], rates = [1 / 100]\<rparr> 10 (\<lambda>_. - 1)
       = Inr e \<and>
     shiftYieldCurve e = Inr (c, e') \<and>
     c = \<lparr>maturities = [1, 2], rates = [0, 0]\<rparr> \<and>
     (\<forall>t. \<exists>r. interpolate c t = Inr r \<and> 0 \<le> r) \<and>
     yield_curve e' = \<lparr>maturities = [1], rates = [1 / 100]\<rparr>"
proof -
  let ?yc = "\<lparr>maturities = [1], rates = [1 / 100 :: real]\<rparr>"
  let ?g = "\<lambda>_ :: nat. - 1 :: real"
  let ?e = "\<lparr>face_value = 1000, coupon_rate = 5 / 100, years_to_maturity = 2,
             coupons_per_year = 1, yield_curve = ?yc, num_simulations = 10,
             is_zero_coupon = False, gen = ?g\<rparr>"
  let ?c = "\<lparr>maturities = [1, 2], rates = [0, 0 :: real]\<rparr>"
  have e: "BondPriceCalculator 1000 (5 / 100) 2 1 ?yc 10 ?g = Inr ?e"
    by (simp add: BondPriceCalculator_def validateInputs_def bind_e_def Let_def)
  have s: "shiftYieldCurve ?e = Inr (?c, ?e)"
    by (simp add: shiftYieldCurve_def shift_loop.simps dist_gen_def int_incr_def
          checked_int_def INT_MAX_def INT_MIN_def YieldCurve_def interpolate_def
          lower_bound_def lower_bound_from.simps Let_def vec_front_def vec_back_def bind_e_def)
  from shiftYieldCurve_nonneg [OF e s]
  have "(\<forall>t. \<exists>r. interpolate ?c t = Inr r \<and> 0 \<le> r) \<and> yield_curve ?e = ?yc"
    by blast
  with e s show ?thesis
    by blast
qed

subsection \<open>The Monte Carlo simulation\<close>

lemma trial_engine: "trial e = Inr (p, e') \<Longrightarrow> e' = e\<lparr>gen := gen e'\<rparr>"
  by (auto simp: trial_def bind_e_def split: sum.splits dest: shiftYieldCurve_engine)

lemma trial_num_simulations:
  assumes "trial e = Inr (p, e')"
  shows "num_simulations e' = num_simulations e"
proof -
  have "e' = e\<lparr>gen := gen e'\<rparr>"
    using assms by (rule trial_engine)
  then have "num_simulations e' = num_simulations (e\<lparr>gen := gen e'\<rparr>)"
    by simp
  then show ?thesis
    by simp
qed

lemma trials_Inr:
  "trials k e = Inr (ps, e') \<Longrightarrow> length ps = k \<and> num_simulations e' = num_simulations e"
proof (induction k arbitrary: e ps)
  case 0
  then show ?case by simp
next
  case (Suc k)
  from Suc.prems obtain p e1 qs where
    t: "trial e = Inr (p, e1)" and r: "trials k e1 = Inr (qs, e')" and ps: "ps = p # qs"
    by (auto simp: bind_e_def split: sum.splits)
  from Suc.IH [OF r] trial_num_simulations [OF t] ps show ?case
    by simp
qed

text \<open>The loop of \<open>calculateMonteCarlo\<close> from \<open>i\<close> on runs the remaining trials.\<close>

lemma mc_loop_trials:
  assumes "0 \<le> i" and "i \<le> sint (num_simulations e)"
  shows "mc_loop e i prices =
           bind_e (trials (nat (sint (num_simulations e) - i)) e) (\<lambda>(qs, e').
           Inr (prices @ qs, e'))"
  using assms
proof (induction "nat (sint (num_simulations e) - i)" arbitrary: e i prices)
  case 0
  then have "\<not> i < sint (num_simulations e)"
    by linarith
  with 0 show ?case
    by (subst mc_loop.simps) (simp add: bind_e_def)
next
  case (Suc d)
  let ?n = "sint (num_simulations e)"
  from Suc.hyps(2) have lt: "i < ?n"
    by linarith
  have "?n < 2 ^ 31"
    using sint_lt [of "num_simulations e"] by simp
  with lt Suc.prems(1) have inc: "int_incr i = Inr (i + 1)"
    by (simp add: int_incr_def checked_int_def INT_MAX_def INT_MIN_def)
  have k: "nat (?n - i) = Suc (nat (?n - (i + 1)))"
    using lt by simp
  show ?case
  proof (cases "trial e")
    case (Inl err)
    then show ?thesis
      using lt
      by (subst mc_loop.simps)
         (auto simp: k trial_def bind_e_def split: sum.splits)
  next
    case (Inr pe)
    obtain p e1 where pe: "pe = (p, e1)"
      by (cases pe)
    with Inr have t: "trial e = Inr (p, e1)"
      by simp
    then obtain c where s: "shiftYieldCurve e = Inr (c, e1)" and cp: "calculatePrice e1 c = Inr p"
      by (auto simp: trial_def bind_e_def split: sum.splits)
    have n1: "sint (num_simulations e1) = ?n"
      using trial_num_simulations [OF t] by simp
    have "mc_loop e1 (i + 1) (prices @ [p]) =
           bind_e (trials (nat (sint (num_simulations e1) - (i + 1))) e1) (\<lambda>(qs, e').
           Inr ((prices @ [p]) @ qs, e'))"
    proof (rule Suc.hyps(1))
      show "d = nat (sint (num_simulations e1) - (i + 1))"
        using Suc.hyps(2) n1 by simp
      show "0 \<le> i + 1"
        using Suc.prems(1) by simp
      show "i + 1 \<le> sint (num_simulations e1)"
        using lt n1 by simp
    qed
    moreover have "mc_loop e i prices = mc_loop e1 (i + 1) (prices @ [p])"
      using lt by (subst mc_loop.simps) (simp add: s cp inc bind_e_def)
    ultimately show ?thesis
      by (simp add: k t n1 bind_e_def split: sum.splits)
  qed
qed

lemma foldl_plus_sum_list:
  fixes f :: "real \<Rightarrow> real"
  shows "foldl (\<lambda>acc price. acc + f price) a ps = a + (\<Sum>p\<leftarrow>ps. f p)"
  by (induction ps arbitrary: a) simp_all

text \<open>
  C5. For an engine with \<open>num_simulations = n > 0\<close>, \<open>calculateMonteCarlo\<close> runs exactly
  \<open>n\<close> trials, each perturbing the curve and pricing the perturbed curve. When the trials
  return the prices \<open>ps\<close> (there are \<open>n\<close> of them) and \<open>n > 1\<close>, it returns the mean
  \<open>sum ps / n\<close> and the standard deviation \<open>sqrt (sum of (p - mean)^2 / (n - 1))\<close>, with
  Bessel's correction. When \<open>n = 1\<close> the denominator \<open>n - 1\<close> is 0 and the result is the
  division by zero. An error in a trial is the error of the whole.
\<close>

theorem calculateMonteCarlo_mean_stddev:
  assumes "0 < sint (num_simulations e)"
  shows "(\<forall>ps e'. trials (nat (sint (num_simulations e))) e = Inr (ps, e') \<longrightarrow>
            length ps = nat (sint (num_simulations e)) \<and>
            calculateMonteCarlo e =
              (if sint (num_simulations e) = 1 then Inl Division_by_zero
               else Inr ((sum_list ps / of_int (sint (num_simulations e)),
                          sqrt ((\<Sum>p\<leftarrow>ps. (p - sum_list ps / of_int (sint (num_simulations e))) ^ 2) /
                                of_int (sint (num_simulations e) - 1))),
                         e'))) \<and>
         (\<forall>err. trials (nat (sint (num_simulations e))) e = Inl err \<longrightarrow>
            calculateMonteCarlo e = Inl err)"
proof (intro conjI allI impI)
  let ?n = "sint (num_simulations e)"
  have res: "reserve ?n = Inr ()"
    using assms by (simp add: reserve_def)
  have loop: "mc_loop e 0 [] = bind_e (trials (nat ?n) e) (\<lambda>(qs, e'). Inr (qs, e'))"
    using mc_loop_trials [of 0 e "[]"] assms by simp
  {
    fix err
    assume "trials (nat ?n) e = Inl err"
    then show "calculateMonteCarlo e = Inl err"
      by (simp add: calculateMonteCarlo_def res loop bind_e_def)
  }
  fix ps e'
  assume t: "trials (nat ?n) e = Inr (ps, e')"
  from trials_Inr [OF t] have len: "length ps = nat ?n" and n': "sint (num_simulations e') = ?n"
    by simp_all
  show "length ps = nat ?n"
    by (rule len)
  let ?mean = "sum_list ps / of_int ?n"
  let ?ss = "\<Sum>p\<leftarrow>ps. (p - ?mean) ^ 2"
  have l: "mc_loop e 0 [] = Inr (ps, e')"
    by (simp add: loop t bind_e_def)
  have "foldl (+) 0 ps = sum_list ps"
    using foldl_plus_sum_list [of "\<lambda>p. p" 0 ps] by simp
  then have mean: "fdiv (foldl (+) 0 ps) (of_int ?n) = Inr ?mean"
    using assms by (simp add: fdiv_def del: of_int_sint)
  have "?n < 2 ^ 31"
    using sint_lt [of "num_simulations e"] by simp
  then have sub: "int_sub ?n 1 = Inr (?n - 1)"
    using assms by (simp add: int_sub_def checked_int_def INT_MAX_def INT_MIN_def)
  have ss: "foldl (\<lambda>acc price. acc + (price - ?mean) ^ 2) 0 ps = ?ss"
    using foldl_plus_sum_list [of "\<lambda>p. (p - ?mean) ^ 2" 0 ps] by simp
  have ss0: "0 \<le> ?ss"
    by (rule sum_list_nonneg) auto
  have mc: "calculateMonteCarlo e =
      bind_e (fdiv ?ss (of_int (?n - 1))) (\<lambda>variance.
      bind_e (fsqrt variance) (\<lambda>std_dev.
      Inr ((?mean, std_dev), e')))"
    by (simp add: calculateMonteCarlo_def res l n' mean sub ss bind_e_def del: of_int_sint)
  show "calculateMonteCarlo e =
              (if ?n = 1 then Inl Division_by_zero
               else Inr ((?mean, sqrt (?ss / of_int (?n - 1))), e'))"
  proof (cases "?n = 1")
    case True
    then have "fdiv ?ss (of_int (?n - 1)) = Inl Division_by_zero"
      by (simp add: fdiv_def del: of_int_sint)
    with True show ?thesis
      unfolding mc by (simp add: bind_e_def del: of_int_sint)
  next
    case False
    with assms have pos: "0 < ?n - 1"
      by simp
    then have v: "fdiv ?ss (of_int (?n - 1)) = Inr (?ss / of_int (?n - 1))"
      by (simp add: fdiv_def del: of_int_sint)
    have "0 \<le> ?ss / of_int (?n - 1)"
      using ss0 pos by (simp del: of_int_sint of_int_diff)
    then have sq: "fsqrt (?ss / of_int (?n - 1)) = Inr (sqrt (?ss / of_int (?n - 1)))"
      by (simp add: fsqrt_def)
    from False show ?thesis
      unfolding mc v by (simp add: sq bind_e_def del: of_int_sint of_int_diff)
  qed
qed

theorem calculateMonteCarlo_mean_stddev_witness:
  "(\<exists>e e'.
      BondPriceCalculator 1000 0 1 1 \<lparr>maturities = [1], rates = [0]\<rparr> 2
        (\<lambda>k. if k = 0 then 1 else 0) = Inr e \<and>
      0 < sint (num_simulations e) \<and>
      trials 2 e = Inr ([500, 1000], e') \<and>
      calculateMonteCarlo e = Inr ((750, sqrt 125000), e')) \<and>
   (\<exists>e e'.
      BondPriceCalculator 1000 0 1 1 \<lparr>maturities = [1], rates = [0]\<rparr> 1 (\<lambda>k. 1) = Inr e \<and>
      0 < sint (num_simulations e) \<and>
      trials 1 e = Inr ([500], e') \<and>
      calculateMonteCarlo e = Inl Division_by_zero)"
proof -
  let ?yc = "\<lparr>maturities = [1], rates = [0 :: real]\<rparr>"
  let ?g = "\<lambda>k :: nat. if k = 0 then 1 else 0 :: real"
  let ?e = "\<lparr>face_value = 1000, coupon_rate = 0, years_to_maturity = 1,
             coupons_per_year = 1, yield_curve = ?yc, num_simulations = 2,
             is_zero_coupon = True, gen = ?g\<rparr>"
  let ?e' = "\<lparr>face_value = 1000, coupon_rate = 0, years_to_maturity = 1,
             coupons_per_year = 1, yield_curve = ?yc, num_simulations = 2,
             is_zero_coupon = True, gen = (\<lambda>k :: nat. 0 :: real)\<rparr>"
  let ?h = "\<lambda>k :: nat. 1 :: real"
  let ?f = "\<lparr>face_value = 1000, coupon_rate = 0, years_to_maturity = 1,
             coupons_per_year = 1, yield_curve = ?yc, num_simulations = 1,
             is_zero_coupon = True, gen = ?h\<rparr>"
  note defs = trial_def shiftYieldCurve_def shift_loop.simps dist_gen_def int_incr_def
    checked_int_def INT_MAX_def INT_MIN_def YieldCurve_def interpolate_def lower_bound_def
    lower_bound_from.simps Let_def vec_front_def vec_back_def bind_e_def calculatePrice_def
    pow_def fdiv_def
  have e: "BondPriceCalculator 1000 0 1 1 ?yc 2 ?g = Inr ?e"
    by (simp add: BondPriceCalculator_def validateInputs_def bind_e_def Let_def)
  have f: "BondPriceCalculator 1000 0 1 1 ?yc 1 ?h = Inr ?f"
    by (simp add: BondPriceCalculator_def validateInputs_def bind_e_def Let_def)
  have "trials (Suc (Suc 0)) ?e = Inr ([500, 1000], ?e')"
    by (simp add: defs)
  then have te: "trials (nat (sint (num_simulations ?e))) ?e = Inr ([500, 1000], ?e')"
    by (simp add: numeral_2_eq_2)
  have "trials (Suc 0) ?f = Inr ([500], ?f)"
    by (simp add: defs)
  then have tf: "trials (nat (sint (num_simulations ?f))) ?f = Inr ([500], ?f)"
    by simp
  have pe: "0 < sint (num_simulations ?e)" and pf: "0 < sint (num_simulations ?f)"
    by simp_all
  from calculateMonteCarlo_mean_stddev [OF pe] te
  have "calculateMonteCarlo ?e = Inr ((750, sqrt 125000), ?e')"
    by (simp add: power2_eq_square)
  moreover from calculateMonteCarlo_mean_stddev [OF pf] tf
  have "calculateMonteCarlo ?f = Inl Division_by_zero"
    by simp
  ultimately show ?thesis
    using e f pe pf te tf by (auto simp: numeral_2_eq_2)
qed

end
